theory Spec2Isabelle
  imports Complex_Main
begin

section \<open>Data model (src/types)\<close>

text \<open>
  The fields of \<open>OutlineDocument\<close> that the modelled functions read. Optional
  fields (\<open>emoji?\<close>, \<open>parentDocumentId?\<close>) are options; \<open>None\<close> is
  \<open>undefined\<close>. The remaining fields of the interface (createdAt, teamId,
  createdBy, url, ...) are never read by the code below and are left out.
\<close>

record OutlineDocument =
  doc_id :: string
  doc_title :: string
  doc_text :: string
  doc_emoji :: "string option"
  doc_collectionId :: string
  doc_parentDocumentId :: "string option"
  doc_updatedAt :: string

record OutlineDocumentCreateRequest =
  req_title :: string
  req_text :: string
  req_emoji :: "string option"
  req_collectionId :: string
  req_parentDocumentId :: "string option"

record TranslatedDocument =
  originalId :: string
  translatedId :: string
  originalTitle :: string
  translatedTitle :: string
  originalUpdatedAt :: string
  translatedAt :: string

type_synonym TranslationRecord = "string \<rightharpoonup> TranslatedDocument"

text \<open>
  JavaScript numbers as far as the configuration produces them: \<open>parseFloat\<close>
  yields a number or NaN. Truthiness (\<open>if (x)\<close>, \<open>x && ...\<close>, \<open>!x\<close>)
  is written out: \<open>undefined\<close>, the empty string, \<open>0\<close> and NaN are falsy.
\<close>

datatype js_number = Num real | NaN

fun truthy_str :: "string option \<Rightarrow> bool" where
  "truthy_str None = False"
| "truthy_str (Some s) = (s \<noteq> [])"

fun truthy_num :: "js_number option \<Rightarrow> bool" where
  "truthy_num None = False"
| "truthy_num (Some NaN) = False"
| "truthy_num (Some (Num r)) = (r \<noteq> 0)"

text \<open>\<open>a > b\<close> on a number and an optional configured number: false against NaN.\<close>

fun js_gt :: "real \<Rightarrow> js_number option \<Rightarrow> bool" where
  "js_gt a (Some (Num b)) = (a > b)"
| "js_gt a _ = False"

datatype error = WriteError | TranslationFailed | OutlineApiError

section \<open>TranslationTracker (src/services/translationTracker.ts)\<close>

text \<open>
  The file behind the tracker: absent, present but not loadable (read or
  \<open>JSON.parse\<close> throws), or holding a record.
\<close>

datatype file_state = Missing | Unreadable | Stored TranslationRecord

text \<open>
  The ledger \<open>this.translations\<close> is a plain object, \<open>{}\<close> or the result of
  \<open>JSON.parse\<close>, used as a dictionary. \<open>translations'\<close> holds its own
  properties, which are what \<open>JSON.stringify\<close> writes and what \<open>delete\<close>
  removes. \<open>prototype'\<close> is the object it inherits from: \<open>None\<close> for
  \<open>Object.prototype\<close>, or a record, after an assignment under the key
  \<open>__proto__\<close>. \<open>stored\<close> is the content of the tracker's file.

  A read (\<open>obj[k]\<close>, \<open>k in obj\<close>) sees the own properties first, then those
  of the prototype chain: the fields of a record that was made the prototype, then
  the properties of \<open>Object.prototype\<close>, whose \<open>__proto__\<close> is an accessor
  returning the prototype of the object. The value read is a record, a string (a
  field of a record), or a value built into the language (a method of
  \<open>Object.prototype\<close>, or \<open>Object.prototype\<close> itself), which is truthy and
  has none of the fields of a record.
\<close>

record tracker_state =
  translations' :: TranslationRecord
  prototype' :: "TranslatedDocument option"
  stored :: file_state

datatype property = Entry TranslatedDocument | Text string | Builtin

definition object_prototype_keys :: "string list" where
  "object_prototype_keys =
     [''constructor'', ''__defineGetter__'', ''__defineSetter__'', ''hasOwnProperty'',
      ''__lookupGetter__'', ''__lookupSetter__'', ''isPrototypeOf'', ''propertyIsEnumerable'',
      ''toString'', ''valueOf'', ''__proto__'', ''toLocaleString'']"

definition record_field :: "TranslatedDocument \<Rightarrow> string \<Rightarrow> string option" where
  "record_field r k =
     (if k = ''originalId'' then Some (originalId r)
      else if k = ''translatedId'' then Some (translatedId r)
      else if k = ''originalTitle'' then Some (originalTitle r)
      else if k = ''translatedTitle'' then Some (translatedTitle r)
      else if k = ''originalUpdatedAt'' then Some (originalUpdatedAt r)
      else if k = ''translatedAt'' then Some (translatedAt r)
      else None)"

definition inherited :: "TranslatedDocument option \<Rightarrow> string \<Rightarrow> property option" where
  "inherited proto k =
     (case Option.bind proto (\<lambda>r. record_field r k) of
        Some s \<Rightarrow> Some (Text s)
      | None \<Rightarrow>
          if k = ''__proto__'' then Some (case proto of None \<Rightarrow> Builtin | Some r \<Rightarrow> Entry r)
          else if k \<in> set object_prototype_keys then Some Builtin
          else None)"

text \<open>Truthiness of a value read (\<open>if (x)\<close>, \<open>!x\<close>), and the reads of the
  fields of a record on it: \<open>undefined\<close> on a value that is no record.\<close>

fun truthy_property :: "property option \<Rightarrow> bool" where
  "truthy_property None = False"
| "truthy_property (Some (Text s)) = (s \<noteq> [])"
| "truthy_property (Some (Entry r)) = True"
| "truthy_property (Some Builtin) = True"

fun translatedId_of :: "property \<Rightarrow> string option" where
  "translatedId_of (Entry r) = Some (translatedId r)"
| "translatedId_of v = None"

fun translatedTitle_of :: "property \<Rightarrow> string option" where
  "translatedTitle_of (Entry r) = Some (translatedTitle r)"
| "translatedTitle_of v = None"

fun translatedAt_of :: "property \<Rightarrow> string option" where
  "translatedAt_of (Entry r) = Some (translatedAt r)"
| "translatedAt_of v = None"

text \<open>What \<open>fs.writeFileSync\<close> did: it wrote, or it threw and left the file in
  some state.\<close>

datatype write_outcome = Written | WriteThrows file_state

fun loadTranslations :: "file_state \<Rightarrow> TranslationRecord" where
  "loadTranslations (Stored r) = r"
| "loadTranslations Unreadable = Map.empty"
| "loadTranslations Missing = Map.empty"

definition new_TranslationTracker :: "file_state \<Rightarrow> tracker_state" where
  "new_TranslationTracker f =
     \<lparr>translations' = loadTranslations f, prototype' = None, stored = f\<rparr>"

fun saveTranslations :: "write_outcome \<Rightarrow> tracker_state \<Rightarrow> (error + unit) \<times> tracker_state" where
  "saveTranslations Written t = (Inr (), t\<lparr>stored := Stored (translations' t)\<rparr>)"
| "saveTranslations (WriteThrows f) t = (Inl WriteError, t\<lparr>stored := f\<rparr>)"

text \<open>\<open>documentId in this.translations\<close> and \<open>this.translations[documentId]\<close>.\<close>

definition isDocumentTranslated :: "tracker_state \<Rightarrow> string \<Rightarrow> bool" where
  "isDocumentTranslated t documentId =
     (documentId \<in> dom (translations' t) \<or> inherited (prototype' t) documentId \<noteq> None)"

definition getTranslatedDocument :: "tracker_state \<Rightarrow> string \<Rightarrow> property option" where
  "getTranslatedDocument t documentId =
     (case translations' t documentId of
        Some r \<Rightarrow> Some (Entry r)
      | None \<Rightarrow> inherited (prototype' t) documentId)"

text \<open>
  \<open>this.translations[k] = r\<close>. Under a key the object does not own, the
  assignment finds the accessor \<open>__proto__\<close> of \<open>Object.prototype\<close> and calls
  its setter, which makes \<open>r\<close> the prototype of the object and adds no property;
  every other inherited property is a writable data property, and the assignment
  adds an own property as it does under a key that is not inherited.
\<close>

definition assign :: "string \<Rightarrow> TranslatedDocument \<Rightarrow> tracker_state \<Rightarrow> tracker_state" where
  "assign k r t =
     (if k = ''__proto__'' \<and> translations' t k = None then t\<lparr>prototype' := Some r\<rparr>
      else t\<lparr>translations' := (translations' t)(k \<mapsto> r)\<rparr>)"

text \<open>\<open>now\<close> is \<open>new Date().toISOString()\<close> at the call.\<close>

definition addTranslation ::
  "string \<Rightarrow> write_outcome \<Rightarrow> OutlineDocument \<Rightarrow> OutlineDocument \<Rightarrow> tracker_state
     \<Rightarrow> (error + unit) \<times> tracker_state" where
  "addTranslation now wo originalDoc translatedDoc t =
     (let translatedDocument =
            \<lparr>originalId = doc_id originalDoc,
             translatedId = doc_id translatedDoc,
             originalTitle = doc_title originalDoc,
             translatedTitle = doc_title translatedDoc,
             originalUpdatedAt = doc_updatedAt originalDoc,
             translatedAt = now\<rparr>
      in saveTranslations wo (assign (doc_id originalDoc) translatedDocument t))"

text \<open>
  \<open>date\<close> is \<open>new Date(s).getTime()\<close>: the milliseconds of a timestamp string,
  \<open>None\<close> for an invalid date (NaN, against which every comparison is false);
  \<open>new Date(undefined)\<close> is an invalid date.
\<close>

definition needsUpdate :: "(string \<Rightarrow> int option) \<Rightarrow> tracker_state \<Rightarrow> OutlineDocument \<Rightarrow> bool" where
  "needsUpdate date t document =
     (case getTranslatedDocument t (doc_id document) of
        None \<Rightarrow> False
      | Some existingTranslation \<Rightarrow>
          if \<not> truthy_property (Some existingTranslation) then False
          else
            (case (date (doc_updatedAt document),
                   Option.bind (translatedAt_of existingTranslation) date) of
               (Some originalUpdated, Some translatedAt') \<Rightarrow> originalUpdated > translatedAt'
             | _ \<Rightarrow> False))"


section \<open>Cost gate (costEstimator.ts, usageMonitor.ts)\<close>

definition confirmCostWithUser :: "real \<Rightarrow> js_number option \<Rightarrow> bool" where
  "confirmCostWithUser estimatedCostUsd maxSpending =
     (if truthy_num maxSpending \<and> js_gt estimatedCostUsd maxSpending then False else True)"

definition checkSpendingLimit :: "real \<Rightarrow> js_number option \<Rightarrow> bool" where
  "checkSpendingLimit estimatedCost maxSpending =
     (if \<not> truthy_num maxSpending then True
      else if js_gt estimatedCost maxSpending then False
      else True)"


section \<open>DocumentHierarchy: building the tree (documentHierarchy.ts)\<close>

text \<open>
  \<open>DocumentNode\<close> objects are shared and mutated through references
  (\<open>parent.children.push(node)\<close>, \<open>node.parent = parent\<close>), so they live in an
  explicit store: a list of nodes addressed by position. A reference to a node is
  its address; \<open>children\<close> and \<open>parent\<close> hold addresses. \<open>sourceHierarchy\<close>
  is the instance's \<open>Map\<close> from document identifier to node.
\<close>

record DocumentNode =
  document :: OutlineDocument
  children :: "nat list"
  parent :: "nat option"

record DocumentHierarchy =
  nodes :: "DocumentNode list"
  sourceHierarchy :: "string \<rightharpoonup> nat"

definition new_DocumentHierarchy :: DocumentHierarchy where
  "new_DocumentHierarchy = \<lparr>nodes = [], sourceHierarchy = Map.empty\<rparr>"

text \<open>First pass: one fresh node per document, indexed in the local
  \<open>documentMap\<close> and in \<open>this.sourceHierarchy\<close> (a later document with the
  same identifier replaces the earlier entry).\<close>

fun first_pass ::
  "OutlineDocument list \<Rightarrow> DocumentNode list \<times> (string \<rightharpoonup> nat) \<times> (string \<rightharpoonup> nat)
     \<Rightarrow> DocumentNode list \<times> (string \<rightharpoonup> nat) \<times> (string \<rightharpoonup> nat)" where
  "first_pass [] s = s"
| "first_pass (doc # docs) (hp, documentMap, sh) =
     first_pass docs
       (hp @ [\<lparr>document = doc, children = [], parent = None\<rparr>],
        documentMap(doc_id doc \<mapsto> length hp),
        sh(doc_id doc \<mapsto> length hp))"

text \<open>Second pass: link each document's node to the node of its declared parent,
  when \<open>parentDocumentId\<close> is truthy and indexed; otherwise the node is a root.
  The lookup of the document's own node cannot miss after the first pass; the
  branch is kept so that the function is total.\<close>

fun second_pass ::
  "(string \<rightharpoonup> nat) \<Rightarrow> OutlineDocument list \<Rightarrow> DocumentNode list \<times> nat list
     \<Rightarrow> DocumentNode list \<times> nat list" where
  "second_pass documentMap [] s = s"
| "second_pass documentMap (doc # docs) (hp, rootNodes) =
     (case documentMap (doc_id doc) of
        None \<Rightarrow> second_pass documentMap docs (hp, rootNodes)
      | Some node \<Rightarrow>
          (if truthy_str (doc_parentDocumentId doc) then
             (case documentMap (the (doc_parentDocumentId doc)) of
                Some parent' \<Rightarrow>
                  (let hp1 = hp[parent' := (hp ! parent')\<lparr>children := children (hp ! parent') @ [node]\<rparr>];
                       hp2 = hp1[node := (hp1 ! node)\<lparr>parent := Some parent'\<rparr>]
                   in second_pass documentMap docs (hp2, rootNodes))
              | None \<Rightarrow> second_pass documentMap docs (hp, rootNodes @ [node]))
           else second_pass documentMap docs (hp, rootNodes @ [node])))"

definition buildHierarchy ::
  "OutlineDocument list \<Rightarrow> DocumentHierarchy \<Rightarrow> nat list \<times> DocumentHierarchy" where
  "buildHierarchy documents h =
     (case first_pass documents (nodes h, Map.empty, sourceHierarchy h) of
        (hp1, documentMap, sh) \<Rightarrow>
          (case second_pass documentMap documents (hp1, []) of
             (hp2, rootNodes) \<Rightarrow> (rootNodes, \<lparr>nodes = hp2, sourceHierarchy = sh\<rparr>)))"

text \<open>
  \<open>getDocumentPath\<close>: the loop \<open>while (current) { path.unshift(current);
  current = current.parent }\<close>. It runs forever on a parent cycle, so it is a
  partial function: \<open>None\<close> is "does not return".
\<close>

partial_function (option) walk ::
  "DocumentNode list \<Rightarrow> nat option \<Rightarrow> nat list \<Rightarrow> nat list option" where
  "walk hp current path =
     (case current of
        None \<Rightarrow> Some path
      | Some a \<Rightarrow> walk hp (parent (hp ! a)) (a # path))"

declare walk.simps [code]

definition getDocumentPath :: "DocumentHierarchy \<Rightarrow> string \<Rightarrow> nat list option" where
  "getDocumentPath h documentId = walk (nodes h) (sourceHierarchy h documentId) []"

section \<open>The environment of a run\<close>

text \<open>
  The remote document store, the translation engine, the clock and the file
  system are outside the repository. A run is modelled over a \<open>world\<close>: the
  documents held by the store, the tracker, the folder mappings of the
  \<open>DocumentHierarchy\<close> instance, a log of the calls made to the services, and
  a counter \<open>tick\<close> of the interactions with the outside so far. What the
  outside answers at each interaction is given by an \<open>environment\<close> of
  functions of the tick, so that an answer may differ from one call to the next
  (a transient failure, a translation that varies).

  The store follows the contract the client code relies on: \<open>documents.list\<close>
  returns the documents of the collection, \<open>documents.create\<close> adds a document
  with the requested title, text, emoji, collection and parent under a new
  identifier, \<open>documents.info\<close> returns the document of an identifier; each
  call may instead fail (\<open>makeRequest\<close> throws on a response that is not ok).
  The pagination loop of the client is not modelled: a listing is one interaction.
\<close>

text \<open>The fields \<open>targetId\<close> and \<open>targetName\<close> of a mapping are read from a
  ledger entry in one branch of the resolver, where they are \<open>undefined\<close>
  (\<open>None\<close>) when the value read from the ledger is no record.\<close>

record FolderMapping =
  sourceId :: string
  targetId :: "string option"
  sourceName :: string
  targetName :: "string option"

datatype call =
    ListDocuments string
  | GetDocumentInfo string
  | CreateDocument OutlineDocumentCreateRequest
  | TranslateTitle string
  | TranslateToEnglish string string
  | AddTranslation string string

record world =
  tick :: nat
  calls :: "call list"
  server :: "OutlineDocument list"
  tracker :: tracker_state
  folderMappings :: "string \<rightharpoonup> FolderMapping"

record environment =
  isAlreadyInEnglish :: "string \<Rightarrow> bool"
  chat_title :: "nat \<Rightarrow> string \<Rightarrow> string option"
  chat_content :: "nat \<Rightarrow> string \<Rightarrow> string option"
  list_throws :: "nat \<Rightarrow> bool"
  info_throws :: "nat \<Rightarrow> bool"
  create_throws :: "nat \<Rightarrow> bool"
  new_id :: "nat \<Rightarrow> string"
  clock_now :: "nat \<Rightarrow> string"
  write_result :: "nat \<Rightarrow> write_outcome"
  parse_date :: "string \<Rightarrow> int option"

text \<open>
  \<open>isAlreadyInEnglish\<close> is the word-count heuristic of the translation service,
  a function of the text alone. \<open>chat_title\<close> and \<open>chat_content\<close> are the
  completion of the OpenAI call, trimmed: \<open>None\<close> when the call throws (for
  \<open>chat_content\<close> also when the completion is empty, which the service turns
  into a throw).
\<close>

record Config =
  sourceCollectionId :: string
  targetCollectionId :: string
  maxSpendingUsd :: "js_number option"
  batchSize :: "int option"
  dryRun :: bool

definition interact :: "call \<Rightarrow> world \<Rightarrow> world" where
  "interact c w = w\<lparr>tick := Suc (tick w), calls := calls w @ [c]\<rparr>"

subsection \<open>OutlineClient (src/services/outlineClient.ts)\<close>

definition getDocumentsByCollection ::
  "environment \<Rightarrow> string \<Rightarrow> world \<Rightarrow> (error + OutlineDocument list) \<times> world" where
  "getDocumentsByCollection env collectionId w =
     (if list_throws env (tick w)
      then (Inl OutlineApiError, interact (ListDocuments collectionId) w)
      else (Inr (filter (\<lambda>d. doc_collectionId d = collectionId) (server w)),
            interact (ListDocuments collectionId) w))"

definition getDocumentInfo ::
  "environment \<Rightarrow> string \<Rightarrow> world \<Rightarrow> (error + OutlineDocument) \<times> world" where
  "getDocumentInfo env documentId w =
     (if info_throws env (tick w)
      then (Inl OutlineApiError, interact (GetDocumentInfo documentId) w)
      else (case find (\<lambda>d. doc_id d = documentId) (server w) of
              None \<Rightarrow> (Inl OutlineApiError, interact (GetDocumentInfo documentId) w)
            | Some d \<Rightarrow> (Inr d, interact (GetDocumentInfo documentId) w)))"

definition createDocument ::
  "environment \<Rightarrow> OutlineDocumentCreateRequest \<Rightarrow> world \<Rightarrow> (error + OutlineDocument) \<times> world" where
  "createDocument env request w =
     (if create_throws env (tick w)
      then (Inl OutlineApiError, interact (CreateDocument request) w)
      else (let d = \<lparr>doc_id = new_id env (tick w),
                      doc_title = req_title request,
                      doc_text = req_text request,
                      doc_emoji = req_emoji request,
                      doc_collectionId = req_collectionId request,
                      doc_parentDocumentId = req_parentDocumentId request,
                      doc_updatedAt = clock_now env (tick w)\<rparr>
            in (Inr d, (interact (CreateDocument request) w)\<lparr>server := server w @ [d]\<rparr>)))"

subsection \<open>TranslationService (src/services/translationService.ts)\<close>

text \<open>\<open>translateTitle\<close> never throws: a failed call returns the title itself.\<close>

definition translateTitle ::
  "Config \<Rightarrow> environment \<Rightarrow> string \<Rightarrow> bool \<Rightarrow> world \<Rightarrow> string \<times> world" where
  "translateTitle cfg env title forceTranslate w =
     (let w0 = w\<lparr>calls := calls w @ [TranslateTitle title]\<rparr> in
      if dryRun cfg \<and> \<not> forceTranslate then (''[DRY RUN] Translated: '' @ title, w0)
      else if isAlreadyInEnglish env title then (title, w0)
      else (case chat_title env (tick w) title of
              Some s \<Rightarrow> (if s \<noteq> [] then s else title, w0\<lparr>tick := Suc (tick w)\<rparr>)
            | None \<Rightarrow> (title, w0\<lparr>tick := Suc (tick w)\<rparr>)))"

definition translateToEnglish ::
  "Config \<Rightarrow> environment \<Rightarrow> string \<Rightarrow> string \<Rightarrow> bool \<Rightarrow> world \<Rightarrow> (error + string) \<times> world" where
  "translateToEnglish cfg env content title forceTranslate w =
     (let w0 = w\<lparr>calls := calls w @ [TranslateToEnglish content title]\<rparr> in
      if dryRun cfg \<and> \<not> forceTranslate
      then (Inr (''[DRY RUN] Translated: '' @ take 100 content @ ''...''), w0)
      else if isAlreadyInEnglish env content then (Inr content, w0)
      else (case chat_content env (tick w) content of
              Some s \<Rightarrow> (Inr s, w0\<lparr>tick := Suc (tick w)\<rparr>)
            | None \<Rightarrow> (Inl TranslationFailed, w0\<lparr>tick := Suc (tick w)\<rparr>)))"

subsection \<open>The tracker inside a run\<close>

definition track ::
  "environment \<Rightarrow> OutlineDocument \<Rightarrow> OutlineDocument \<Rightarrow> world \<Rightarrow> (error + unit) \<times> world" where
  "track env originalDoc translatedDoc w =
     (case addTranslation (clock_now env (tick w)) (write_result env (tick w))
             originalDoc translatedDoc (tracker w) of
        (r, t) \<Rightarrow>
          (r, (interact (AddTranslation (doc_id originalDoc) (doc_id translatedDoc)) w)
                \<lparr>tracker := t\<rparr>))"

section \<open>DocumentHierarchy: the folder resolver (documentHierarchy.ts)\<close>

text \<open>\<open>s.trim().length > 0\<close>. The characters of a string are its code units
  below 256; the white space and line terminators that \<open>trim\<close> strips among
  them are the tab, the line feed, the vertical tab, the form feed, the carriage
  return, the space and the no-break space.\<close>

definition is_space :: "char \<Rightarrow> bool" where
  "is_space c =
     (c \<in> set [CHR '' '', CHR 0x09, CHR 0x0A, CHR 0x0B, CHR 0x0C, CHR 0x0D, CHR 0xA0])"

definition nonblank :: "string \<Rightarrow> bool" where
  "nonblank s = (\<not> list_all is_space s)"

definition findFolderByName ::
  "environment \<Rightarrow> string \<Rightarrow> string \<Rightarrow> string option \<Rightarrow> world
     \<Rightarrow> OutlineDocument option \<times> world" where
  "findFolderByName env folderName collectionId parentId w =
     (case getDocumentsByCollection env collectionId w of
        (Inl e, w') \<Rightarrow> (None, w')
      | (Inr documents, w') \<Rightarrow>
          (find (\<lambda>doc. doc_title doc = folderName \<and> doc_parentDocumentId doc = parentId)
                documents, w'))"

definition set_mapping ::
  "OutlineDocument \<Rightarrow> string option \<Rightarrow> string option \<Rightarrow> world \<Rightarrow> world" where
  "set_mapping sourceDoc target name w =
     w\<lparr>folderMappings := (folderMappings w)(doc_id sourceDoc \<mapsto>
          \<lparr>sourceId = doc_id sourceDoc, targetId = target,
           sourceName = doc_title sourceDoc, targetName = name\<rparr>)\<rparr>"

text \<open>
  The \<open>else\<close> branch of the loop body: no mapping, no ledger entry and no
  folder found. The body of the folder is translated when it is not blank, the
  folder is created under \<open>currentParentId\<close> and recorded in the tracker and in
  the mappings.
\<close>

definition create_folder ::
  "Config \<Rightarrow> environment \<Rightarrow> string \<Rightarrow> bool \<Rightarrow> OutlineDocument \<Rightarrow> string \<Rightarrow> string option
     \<Rightarrow> world \<Rightarrow> (error + string option) \<times> world" where
  "create_folder cfg env targetCollection forceTranslate sourceDoc translatedFolderName
       currentParentId w2 =
     (case (if nonblank (doc_text sourceDoc)
            then translateToEnglish cfg env (doc_text sourceDoc) (doc_title sourceDoc)
                   forceTranslate w2
            else (Inr [], w2)) of
        (Inl e, w3) \<Rightarrow> (Inl e, w3)
      | (Inr translatedContent, w3) \<Rightarrow>
          (case createDocument env
                  \<lparr>req_title = translatedFolderName,
                   req_text = translatedContent,
                   req_emoji = (if truthy_str (doc_emoji sourceDoc)
                                then doc_emoji sourceDoc else None),
                   req_collectionId = targetCollection,
                   req_parentDocumentId =
                     (if truthy_str currentParentId then currentParentId else None)\<rparr> w3 of
             (Inl e, w4) \<Rightarrow> (Inl e, w4)
           | (Inr newFolder, w4) \<Rightarrow>
               (case track env sourceDoc newFolder w4 of
                  (Inl e, w5) \<Rightarrow> (Inl e, w5)
                | (Inr u, w5) \<Rightarrow>
                    (Inr (Some (doc_id newFolder)),
                     set_mapping sourceDoc (Some (doc_id newFolder))
                       (Some translatedFolderName) w5))))"

text \<open>
  The end of the loop body, reached when neither the mappings nor the ledger
  resolve the folder: its title is translated and the destination collection is
  searched for a document of that title under \<open>currentParentId\<close>, which is
  adopted when found; else the folder is created.
\<close>

definition search_or_create ::
  "Config \<Rightarrow> environment \<Rightarrow> string \<Rightarrow> bool \<Rightarrow> OutlineDocument \<Rightarrow> string option \<Rightarrow> world
     \<Rightarrow> (error + string option) \<times> world" where
  "search_or_create cfg env targetCollection forceTranslate sourceDoc currentParentId w =
     (case translateTitle cfg env (doc_title sourceDoc) forceTranslate w of
        (translatedFolderName, w1) \<Rightarrow>
          (case findFolderByName env translatedFolderName targetCollection
                  currentParentId w1 of
             (Some existingFolder, w2) \<Rightarrow>
               (Inr (Some (doc_id existingFolder)),
                set_mapping sourceDoc (Some (doc_id existingFolder))
                  (Some translatedFolderName) w2)
           | (None, w2) \<Rightarrow>
               create_folder cfg env targetCollection forceTranslate sourceDoc
                 translatedFolderName currentParentId w2))"

text \<open>
  One iteration of the loop over \<open>folderPath\<close>, for the folder \<open>sourceDoc\<close>
  with the destination parent \<open>currentParentId\<close> reached so far. It returns the
  next \<open>currentParentId\<close>, or the exception that leaves the function. The
  ledger is consulted as the code does: \<open>isDocumentTranslated\<close> first, then the
  value of \<open>getTranslatedDocument\<close>, used when it is truthy.
\<close>

definition resolve_folder ::
  "Config \<Rightarrow> environment \<Rightarrow> string \<Rightarrow> bool \<Rightarrow> OutlineDocument \<Rightarrow> string option \<Rightarrow> world
     \<Rightarrow> (error + string option) \<times> world" where
  "resolve_folder cfg env targetCollection forceTranslate sourceDoc currentParentId w =
     (case folderMappings w (doc_id sourceDoc) of
        Some existingMapping \<Rightarrow> (Inr (targetId existingMapping), w)
      | None \<Rightarrow>
          (case (if isDocumentTranslated (tracker w) (doc_id sourceDoc)
                 then getTranslatedDocument (tracker w) (doc_id sourceDoc) else None) of
             Some existingTranslation \<Rightarrow>
               if truthy_property (Some existingTranslation)
               then (Inr (translatedId_of existingTranslation),
                     set_mapping sourceDoc (translatedId_of existingTranslation)
                       (translatedTitle_of existingTranslation) w)
               else search_or_create cfg env targetCollection forceTranslate sourceDoc
                      currentParentId w
           | None \<Rightarrow>
               search_or_create cfg env targetCollection forceTranslate sourceDoc
                 currentParentId w))"

fun folder_loop ::
  "Config \<Rightarrow> environment \<Rightarrow> DocumentHierarchy \<Rightarrow> string \<Rightarrow> bool \<Rightarrow> nat list \<Rightarrow> string option
     \<Rightarrow> world \<Rightarrow> (error + string option) \<times> world" where
  "folder_loop cfg env h targetCollection forceTranslate [] currentParentId w =
     (Inr currentParentId, w)"
| "folder_loop cfg env h targetCollection forceTranslate (folderNode # rest) currentParentId w =
     (case resolve_folder cfg env targetCollection forceTranslate
             (document (nodes h ! folderNode)) currentParentId w of
        (Inl e, w') \<Rightarrow> (Inl e, w')
      | (Inr next', w') \<Rightarrow> folder_loop cfg env h targetCollection forceTranslate rest next' w')"

text \<open>\<open>None\<close>: the path query does not return.\<close>

definition ensureFolderStructure ::
  "Config \<Rightarrow> environment \<Rightarrow> DocumentHierarchy \<Rightarrow> string \<Rightarrow> string \<Rightarrow> bool \<Rightarrow> world
     \<Rightarrow> ((error + string option) \<times> world) option" where
  "ensureFolderStructure cfg env h documentId targetCollection forceTranslate w =
     (case getDocumentPath h documentId of
        None \<Rightarrow> None
      | Some path \<Rightarrow>
          (let folderPath = butlast path in
           if folderPath = [] then Some (Inr None, w)
           else Some (folder_loop cfg env h targetCollection forceTranslate folderPath None w)))"

section \<open>Cost estimate (costEstimator.ts)\<close>

text \<open>The arithmetic is done on reals; the rounding of the floating-point sums is
  not modelled. The gate below only compares the resulting number.\<close>

definition estimateInputTokens :: "OutlineDocument \<Rightarrow> real" where
  "estimateInputTokens d =
     of_int \<lceil>real (length (doc_text d) + length (doc_title d)) / 4\<rceil> + 100 + 50"

definition estimateOutputTokens :: "OutlineDocument \<Rightarrow> real" where
  "estimateOutputTokens d = of_int \<lceil>real (length (doc_text d) + length (doc_title d)) / 4\<rceil>"

definition estimateDocumentCost :: "OutlineDocument \<Rightarrow> real" where
  "estimateDocumentCost d =
     estimateInputTokens d * (25 / 10000000) + estimateOutputTokens d * (1 / 100000)"

text \<open>The \<open>estimatedCostUsd\<close> field of \<open>estimateBatchCost\<close>.\<close>

definition estimateBatchCost :: "OutlineDocument list \<Rightarrow> real" where
  "estimateBatchCost ds = foldl (\<lambda>sum' d. sum' + estimateDocumentCost d) 0 ds"

section \<open>The orchestrator (src/index.ts)\<close>

record TranslationStats =
  total :: nat
  translated :: nat
  skipped :: nat
  errors :: nat
  estimatedCostUsd :: real

text \<open>\<open>xs.slice(0, n)\<close>: a negative \<open>n\<close> counts from the end.\<close>

definition slice0 :: "int \<Rightarrow> 'a list \<Rightarrow> 'a list" where
  "slice0 n xs = (if n \<ge> 0 then take (nat n) xs else take (length xs - nat (- n)) xs)"

definition count_error :: "TranslationStats \<Rightarrow> TranslationStats" where
  "count_error st = st\<lparr>errors := Suc (errors st)\<rparr>"

definition count_skipped :: "TranslationStats \<Rightarrow> TranslationStats" where
  "count_skipped st = st\<lparr>skipped := Suc (skipped st)\<rparr>"

definition count_translated :: "TranslationStats \<Rightarrow> TranslationStats" where
  "count_translated st = st\<lparr>translated := Suc (translated st)\<rparr>"

text \<open>
  The \<open>try\<close> block of the loop body for the document at index \<open>i\<close>. It ends
  by skipping the document (\<open>continue\<close>), by recording its translation, or by
  an exception (\<open>Inl\<close>). \<open>Promise.all\<close> starts both translations, the body
  first; a rejection of the body translation is thrown once both have settled.
  \<open>None\<close>: the path query of the folder resolver does not return.
\<close>

datatype step_result = Skipped | Translated

definition try_document ::
  "Config \<Rightarrow> environment \<Rightarrow> DocumentHierarchy \<Rightarrow> nat \<Rightarrow> OutlineDocument \<Rightarrow> world
     \<Rightarrow> ((error + step_result) \<times> world) option" where
  "try_document cfg env h i doc w =
     (if isDocumentTranslated (tracker w) (doc_id doc) \<and>
         \<not> needsUpdate (parse_date env) (tracker w) doc
      then Some (Inr Skipped, w)
      else
        (case getDocumentInfo env (doc_id doc) w of
           (Inl e, w1) \<Rightarrow> Some (Inl e, w1)
         | (Inr fullDoc, w1) \<Rightarrow>
             if \<not> nonblank (doc_text fullDoc) then Some (Inr Skipped, w1)
             else
               (case ensureFolderStructure cfg env h (doc_id doc) (targetCollectionId cfg)
                       (dryRun cfg \<and> i = 0) w1 of
                  None \<Rightarrow> None
                | Some (Inl e, w2) \<Rightarrow> Some (Inl e, w2)
                | Some (Inr parentDocumentId, w2) \<Rightarrow>
                    (case translateToEnglish cfg env (doc_text fullDoc) (doc_title fullDoc)
                            (dryRun cfg \<and> i = 0) w2 of
                       (content, w3) \<Rightarrow>
                         (case translateTitle cfg env (doc_title fullDoc)
                                 (dryRun cfg \<and> i = 0) w3 of
                            (translatedTitle', w4) \<Rightarrow>
                              (case content of
                                 Inl e \<Rightarrow> Some (Inl e, w4)
                               | Inr translatedContent \<Rightarrow>
                                   (case createDocument env
                                           \<lparr>req_title = translatedTitle',
                                            req_text = translatedContent,
                                            req_emoji = (if truthy_str (doc_emoji fullDoc)
                                                         then doc_emoji fullDoc else None),
                                            req_collectionId = targetCollectionId cfg,
                                            req_parentDocumentId =
                                              (if truthy_str parentDocumentId
                                               then parentDocumentId else None)\<rparr> w4 of
                                      (Inl e, w5) \<Rightarrow> Some (Inl e, w5)
                                    | (Inr newDocument, w5) \<Rightarrow>
                                        (case track env fullDoc newDocument w5 of
                                           (Inl e, w6) \<Rightarrow> Some (Inl e, w6)
                                         | (Inr u, w6) \<Rightarrow> Some (Inr Translated, w6)))))))))"

text \<open>The loop body: the dry-run skip of every document but the first, then the
  \<open>try\<close> block, whose \<open>catch\<close> counts an error.\<close>

definition process_document ::
  "Config \<Rightarrow> environment \<Rightarrow> DocumentHierarchy \<Rightarrow> nat \<Rightarrow> OutlineDocument
     \<Rightarrow> TranslationStats \<times> world \<Rightarrow> (TranslationStats \<times> world) option" where
  "process_document cfg env h i doc s =
     (case s of (stats, w) \<Rightarrow>
        if dryRun cfg \<and> i \<noteq> 0 then Some (count_skipped stats, w)
        else
          (case try_document cfg env h i doc w of
             None \<Rightarrow> None
           | Some (Inl e, w') \<Rightarrow> Some (count_error stats, w')
           | Some (Inr Skipped, w') \<Rightarrow> Some (count_skipped stats, w')
           | Some (Inr Translated, w') \<Rightarrow> Some (count_translated stats, w')))"

fun process_documents ::
  "Config \<Rightarrow> environment \<Rightarrow> DocumentHierarchy \<Rightarrow> nat \<Rightarrow> OutlineDocument list
     \<Rightarrow> TranslationStats \<times> world \<Rightarrow> (TranslationStats \<times> world) option" where
  "process_documents cfg env h i [] s = Some s"
| "process_documents cfg env h i (doc # rest) s =
     (case process_document cfg env h i doc s of
        None \<Rightarrow> None
      | Some s' \<Rightarrow> process_documents cfg env h (Suc i) rest s')"

datatype outcome =
    NoDocuments
  | AllUpToDate
  | CancelledCostLimits
  | CancelledSpendingLimits
  | Completed TranslationStats
  | Fatal error

text \<open>
  \<open>main\<close>, from the construction of the services on: the tracker loads its file,
  the \<open>DocumentHierarchy\<close> is new. A failure of the first listing reaches the
  outer \<open>catch\<close>. \<open>config.batchSize || n\<close>: an absent, zero or unparsable batch
  size means all documents.
\<close>

definition documentsToTranslate ::
  "environment \<Rightarrow> tracker_state \<Rightarrow> OutlineDocument list \<Rightarrow> OutlineDocument list" where
  "documentsToTranslate env t documents =
     filter (\<lambda>doc. if isDocumentTranslated t (doc_id doc)
                    then needsUpdate (parse_date env) t doc else True) documents"

definition documentsToProcess :: "Config \<Rightarrow> OutlineDocument list \<Rightarrow> OutlineDocument list" where
  "documentsToProcess cfg ds =
     slice0 (case batchSize cfg of
               None \<Rightarrow> int (length ds)
             | Some n \<Rightarrow> if n = 0 then int (length ds) else n) ds"

definition costEstimate :: "Config \<Rightarrow> OutlineDocument list \<Rightarrow> real" where
  "costEstimate cfg ds = estimateBatchCost (if dryRun cfg then take 1 ds else ds)"

definition new_services :: "world \<Rightarrow> world" where
  "new_services w0 = w0\<lparr>tracker := new_TranslationTracker (stored (tracker w0)),
                          folderMappings := Map.empty\<rparr>"

definition main :: "Config \<Rightarrow> environment \<Rightarrow> world \<Rightarrow> (outcome \<times> world) option" where
  "main cfg env w0 =
     (case getDocumentsByCollection env (sourceCollectionId cfg) (new_services w0) of
           (Inl e, w1) \<Rightarrow> Some (Fatal e, w1)
         | (Inr documents, w1) \<Rightarrow>
             if documents = [] then Some (NoDocuments, w1)
             else
               (let h = snd (buildHierarchy documents new_DocumentHierarchy);
                    todo = documentsToTranslate env (tracker w1) documents
                in if todo = [] then Some (AllUpToDate, w1)
                   else
                     (let batch = documentsToProcess cfg todo in
                      if \<not> confirmCostWithUser (costEstimate cfg batch) (maxSpendingUsd cfg)
                      then Some (CancelledCostLimits, w1)
                      else if \<not> checkSpendingLimit (costEstimate cfg batch) (maxSpendingUsd cfg)
                      then Some (CancelledSpendingLimits, w1)
                      else
                        map_option (\<lambda>(stats, w2). (Completed stats, w2))
                          (process_documents cfg env h 0 batch
                             (\<lparr>total = length batch, translated = 0, skipped = 0, errors = 0,
                               estimatedCostUsd = estimateBatchCost batch\<rparr>, w1)))))"

section \<open>Notions used to state the properties of the hierarchy\<close>

text \<open>\<open>chain hp current path\<close>: \<open>path\<close> lists the nodes met by following
  \<open>parent\<close> from \<open>current\<close> up to a node without parent, root first.\<close>

inductive chain :: "DocumentNode list \<Rightarrow> nat option \<Rightarrow> nat list \<Rightarrow> bool" for hp where
  chain_None: "chain hp None []"
| chain_Some: "chain hp (parent (hp ! a)) pre \<Longrightarrow> chain hp (Some a) (pre @ [a])"

text \<open>The parent links of the store, child to parent, and the parent links the
  input declares among its own identifiers.\<close>

definition parent_rel :: "DocumentNode list \<Rightarrow> (nat \<times> nat) set" where
  "parent_rel hp = {(a, p). a < length hp \<and> parent (hp ! a) = Some p}"

definition closed_heap :: "DocumentNode list \<Rightarrow> bool" where
  "closed_heap hp = (\<forall>a p. a < length hp \<longrightarrow> parent (hp ! a) = Some p \<longrightarrow> p < length hp)"

definition declared_rel :: "OutlineDocument list \<Rightarrow> (string \<times> string) set" where
  "declared_rel documents =
     {(doc_id d, p) | d p. d \<in> set documents \<and> doc_parentDocumentId d = Some p \<and> p \<noteq> [] \<and>
                           p \<in> doc_id ` set documents}"

definition forest_parent :: "DocumentHierarchy \<Rightarrow> (nat \<times> nat) set" where
  "forest_parent h = parent_rel (nodes h)"

text \<open>Invariants of the two passes: every indexed identifier names a node of the
  store holding a document of that identifier, and every parent link was set for a
  document that declares it.\<close>

definition indexed :: "OutlineDocument set \<Rightarrow> DocumentNode list \<Rightarrow> (string \<rightharpoonup> nat) \<Rightarrow> bool" where
  "indexed D hp dm =
     (\<forall>i a. dm i = Some a \<longrightarrow>
        a < length hp \<and> doc_id (document (hp ! a)) = i \<and> document (hp ! a) \<in> D)"

definition linked :: "OutlineDocument set \<Rightarrow> (string \<rightharpoonup> nat) \<Rightarrow> DocumentNode list \<Rightarrow> bool" where
  "linked D dm hp =
     (\<forall>a p. a < length hp \<longrightarrow> parent (hp ! a) = Some p \<longrightarrow>
        (\<exists>d\<in>D. dm (doc_id d) = Some a \<and>
           (\<exists>pid. doc_parentDocumentId d = Some pid \<and> pid \<noteq> [] \<and> dm pid = Some p)))"

text \<open>What the folder resolver takes from the ledger for an identifier: the value
  read under it, when the identifier is a key of the ledger and the value is
  truthy.\<close>

definition ledger_entry :: "tracker_state \<Rightarrow> string \<Rightarrow> property option" where
  "ledger_entry t k =
     (if isDocumentTranslated t k \<and> truthy_property (getTranslatedDocument t k)
      then getTranslatedDocument t k else None)"

text \<open>Between two worlds of a run, the tracker is untouched or its file holds
  exactly its in-memory ledger.\<close>

definition ledger_step :: "world \<Rightarrow> world \<Rightarrow> bool" where
  "ledger_step w w' =
     (tracker w' = tracker w \<or> stored (tracker w') = Stored (translations' (tracker w')))"

section \<open>Notions used to state the properties of folder resolution\<close>

text \<open>The title \<open>translateTitle\<close> returns at tick \<open>n\<close>.\<close>

definition title_at :: "Config \<Rightarrow> environment \<Rightarrow> bool \<Rightarrow> nat \<Rightarrow> string \<Rightarrow> string" where
  "title_at cfg env forceTranslate n title =
     (if dryRun cfg \<and> \<not> forceTranslate then ''[DRY RUN] Translated: '' @ title
      else if isAlreadyInEnglish env title then title
      else (case chat_title env n title of
              Some s \<Rightarrow> if s \<noteq> [] then s else title
            | None \<Rightarrow> title))"

text \<open>\<open>ensureFolderStructure\<close> called for each document of a list in turn, as
  the loop of the orchestrator does; an exception of one call does not stop the
  next.\<close>

fun ensure_all ::
  "Config \<Rightarrow> environment \<Rightarrow> DocumentHierarchy \<Rightarrow> string \<Rightarrow> bool \<Rightarrow> string list \<Rightarrow> world
     \<Rightarrow> world option" where
  "ensure_all cfg env h targetCollection forceTranslate [] w = Some w"
| "ensure_all cfg env h targetCollection forceTranslate (documentId # rest) w =
     (case ensureFolderStructure cfg env h documentId targetCollection forceTranslate w of
        None \<Rightarrow> None
      | Some (r, w') \<Rightarrow> ensure_all cfg env h targetCollection forceTranslate rest w')"

definition source_id :: "DocumentHierarchy \<Rightarrow> nat \<Rightarrow> string" where
  "source_id h x = doc_id (document (nodes h ! x))"

definition source_title :: "DocumentHierarchy \<Rightarrow> nat \<Rightarrow> string" where
  "source_title h x = doc_title (document (nodes h ! x))"

text \<open>The folders of a list of documents: the nodes of their paths, themselves
  excluded. The unrecorded ones are those the ledger does not resolve at the
  start of the run.\<close>

definition folder_nodes :: "DocumentHierarchy \<Rightarrow> string list \<Rightarrow> nat set" where
  "folder_nodes h ls =
     (\<Union>l\<in>set ls. case getDocumentPath h l of None \<Rightarrow> {} | Some p \<Rightarrow> set (butlast p))"

definition unrecorded :: "DocumentHierarchy \<Rightarrow> world \<Rightarrow> nat set \<Rightarrow> nat set" where
  "unrecorded h w0 N = {x \<in> N. ledger_entry (tracker w0) (source_id h x) = None}"

text \<open>\<open>reached_parent\<close> is the \<open>currentParentId\<close> with which the loop
  reaches a folder: the destination mapped to its source parent.
  \<open>dest_parent\<close> is the destination parent a folder must get: that
  destination as \<open>createDocument\<close> receives it (\<open>if (currentParentId)\<close>).\<close>

definition reached_parent :: "DocumentHierarchy \<Rightarrow> world \<Rightarrow> nat \<Rightarrow> string option" where
  "reached_parent h w x =
     (case parent (nodes h ! x) of
        None \<Rightarrow> None
      | Some p \<Rightarrow>
          (case folderMappings w (source_id h p) of
             None \<Rightarrow> None
           | Some m \<Rightarrow> targetId m))"

definition dest_parent :: "DocumentHierarchy \<Rightarrow> world \<Rightarrow> nat \<Rightarrow> string option" where
  "dest_parent h w x =
     (case parent (nodes h ! x) of
        None \<Rightarrow> None
      | Some p \<Rightarrow>
          (case folderMappings w (source_id h p) of
             None \<Rightarrow> None
           | Some m \<Rightarrow> if truthy_str (targetId m) then targetId m else None))"

text \<open>
  The destination document \<open>d\<close> is the folder made for the source folder \<open>x\<close>:
  it lies in the destination collection under the destination of the parent of
  \<open>x\<close>, bears a translation of the title of \<open>x\<close>, and both the mappings and the
  ledger send \<open>x\<close> to it. \<open>request_of d\<close> is the call that creates \<open>d\<close>.
\<close>

definition made_for ::
  "Config \<Rightarrow> environment \<Rightarrow> DocumentHierarchy \<Rightarrow> string \<Rightarrow> bool \<Rightarrow> world \<Rightarrow> nat
     \<Rightarrow> OutlineDocument \<Rightarrow> bool" where
  "made_for cfg env h coll force w x d =
     (doc_collectionId d = coll \<and>
      (\<exists>n. doc_title d = title_at cfg env force n (source_title h x)) \<and>
      doc_parentDocumentId d = dest_parent h w x \<and>
      folderMappings w (source_id h x) =
        Some \<lparr>sourceId = source_id h x, targetId = Some (doc_id d),
              sourceName = source_title h x, targetName = Some (doc_title d)\<rparr> \<and>
      (\<exists>e. translations' (tracker w) (source_id h x) = Some e \<and> translatedId e = doc_id d))"

definition request_of :: "OutlineDocument \<Rightarrow> call" where
  "request_of d =
     CreateDocument \<lparr>req_title = doc_title d, req_text = doc_text d, req_emoji = doc_emoji d,
                     req_collectionId = doc_collectionId d,
                     req_parentDocumentId = doc_parentDocumentId d\<rparr>"

fun is_create :: "call \<Rightarrow> bool" where
  "is_create (CreateDocument r) = True"
| "is_create c = False"

text \<open>No creation, ledger write or body translation fails.\<close>

definition no_failures :: "environment \<Rightarrow> bool" where
  "no_failures env =
     ((\<forall>n. \<not> create_throws env n) \<and> (\<forall>n. write_result env n = Written) \<and>
      (\<forall>n s. chat_content env n s \<noteq> None))"

text \<open>
  Where the folder of an unrecorded source folder is searched and created: under
  a destination parent known at the start (none for a root folder, the one the
  ledger records for its source parent), or inside the folder that the run makes
  for its unrecorded source parent.
\<close>

datatype place = Under "string option" | Inside nat

definition place_of :: "DocumentHierarchy \<Rightarrow> world \<Rightarrow> nat \<Rightarrow> place" where
  "place_of h w0 x =
     (case parent (nodes h ! x) of
        None \<Rightarrow> Under None
      | Some p \<Rightarrow>
          (case ledger_entry (tracker w0) (source_id h p) of
             Some v \<Rightarrow> Under (translatedId_of v)
           | None \<Rightarrow> Inside p))"

text \<open>
  Two unrecorded folders of the same place never get the same translated title,
  and no document already in the destination collection bears a translated title
  of an unrecorded folder at the place of that folder: the search for an existing
  folder then finds nothing.
\<close>

definition sibling_titles_differ ::
  "Config \<Rightarrow> environment \<Rightarrow> DocumentHierarchy \<Rightarrow> bool \<Rightarrow> nat set \<Rightarrow> world \<Rightarrow> bool" where
  "sibling_titles_differ cfg env h force N w0 =
     (\<forall>x\<in>unrecorded h w0 N. \<forall>y\<in>unrecorded h w0 N.
        x \<noteq> y \<longrightarrow> place_of h w0 x = place_of h w0 y \<longrightarrow>
          (\<forall>n m. title_at cfg env force n (source_title h x)
                   \<noteq> title_at cfg env force m (source_title h y)))"

definition places_vacant ::
  "Config \<Rightarrow> environment \<Rightarrow> DocumentHierarchy \<Rightarrow> string \<Rightarrow> bool \<Rightarrow> nat set \<Rightarrow> world \<Rightarrow> bool" where
  "places_vacant cfg env h coll force N w0 =
     (\<forall>x\<in>unrecorded h w0 N. \<forall>d\<in>set (server w0).
        doc_collectionId d = coll \<longrightarrow> place_of h w0 x = Under (doc_parentDocumentId d) \<longrightarrow>
          (\<forall>n. doc_title d \<noteq> title_at cfg env force n (source_title h x)))"

text \<open>
  The identifiers the store assigns are new: not empty, never assigned twice, not
  the parent of a document already in the destination collection and not the
  destination the ledger records for a folder; and no such recorded destination
  is the empty string.
\<close>

definition identifiers_new ::
  "environment \<Rightarrow> DocumentHierarchy \<Rightarrow> string \<Rightarrow> nat set \<Rightarrow> world \<Rightarrow> bool" where
  "identifiers_new env h coll N w0 =
     ((\<forall>n. new_id env n \<noteq> []) \<and>
      (\<forall>n m. new_id env n = new_id env m \<longrightarrow> n = m) \<and>
      (\<forall>d\<in>set (server w0). doc_collectionId d = coll \<longrightarrow>
         (\<forall>n. doc_parentDocumentId d \<noteq> Some (new_id env n))) \<and>
      (\<forall>x\<in>N. \<forall>v. ledger_entry (tracker w0) (source_id h x) = Some v \<longrightarrow>
         translatedId_of v \<noteq> Some [] \<and> (\<forall>n. translatedId_of v \<noteq> Some (new_id env n))))"

text \<open>The invariant of folder resolution, relative to the world \<open>w0\<close> the run
  started from, over a set \<open>N\<close> of folders closed under parents: \<open>xs\<close> are the
  unrecorded folders resolved so far, \<open>ds\<close> the documents created for them.\<close>

definition folder_setting ::
  "Config \<Rightarrow> environment \<Rightarrow> DocumentHierarchy \<Rightarrow> string \<Rightarrow> bool \<Rightarrow> nat set \<Rightarrow> world \<Rightarrow> bool" where
  "folder_setting cfg env h coll force N w0 =
     ((\<forall>x\<in>N. sourceHierarchy h (source_id h x) = Some x) \<and>
      (\<forall>x\<in>N. \<forall>p. parent (nodes h ! x) = Some p \<longrightarrow> p \<in> N) \<and>
      sibling_titles_differ cfg env h force N w0 \<and>
      places_vacant cfg env h coll force N w0 \<and>
      identifiers_new env h coll N w0 \<and>
      folderMappings w0 = Map.empty)"

definition folder_inv ::
  "Config \<Rightarrow> environment \<Rightarrow> DocumentHierarchy \<Rightarrow> string \<Rightarrow> bool \<Rightarrow> nat set \<Rightarrow> world \<Rightarrow> world
     \<Rightarrow> nat list \<Rightarrow> OutlineDocument list \<Rightarrow> bool" where
  "folder_inv cfg env h coll force N w0 w xs ds =
     (dom (folderMappings w) \<subseteq> source_id h ` N \<and>
      (\<forall>x\<in>N. \<forall>p. source_id h x \<in> dom (folderMappings w) \<longrightarrow> parent (nodes h ! x) = Some p
           \<longrightarrow> source_id h p \<in> dom (folderMappings w)) \<and>
      (\<forall>x\<in>N. \<forall>v. ledger_entry (tracker w0) (source_id h x) = Some v \<longrightarrow>
           source_id h x \<in> dom (folderMappings w) \<longrightarrow>
           folderMappings w (source_id h x) =
             Some \<lparr>sourceId = source_id h x, targetId = translatedId_of v,
                   sourceName = source_title h x, targetName = translatedTitle_of v\<rparr>) \<and>
      distinct xs \<and>
      set xs = {x \<in> unrecorded h w0 N. source_id h x \<in> dom (folderMappings w)} \<and>
      server w = server w0 @ ds \<and>
      list_all2 (made_for cfg env h coll force w) xs ds \<and>
      distinct (map doc_id ds) \<and>
      (\<forall>d\<in>set ds. \<exists>k<tick w. doc_id d = new_id env k) \<and>
      filter is_create (calls w) = filter is_create (calls w0) @ map request_of ds \<and>
      prototype' (tracker w) = prototype' (tracker w0) \<and>
      (\<forall>X. X \<notin> source_id h ` set xs \<longrightarrow>
           translations' (tracker w) X = translations' (tracker w0) X))"

section \<open>Example inputs\<close>

definition ex_date :: "string \<Rightarrow> int option" where
  "ex_date s = (if s = ''2024-01-15T10:30:00.000Z'' then Some 1705314600000
                else if s = ''2024-01-15T15:45:00.000Z'' then Some 1705333500000
                else None)"

definition ex_doc :: "string \<Rightarrow> string \<Rightarrow> string option \<Rightarrow> string \<Rightarrow> OutlineDocument" where
  "ex_doc i ti p u =
     \<lparr>doc_id = i, doc_title = ti, doc_text = ''body'', doc_emoji = None,
      doc_collectionId = ''src'', doc_parentDocumentId = p, doc_updatedAt = u\<rparr>"

definition ex_entry :: "string \<Rightarrow> TranslatedDocument" where
  "ex_entry ts =
     \<lparr>originalId = ''A'', translatedId = ''A-translated'', originalTitle = ''Lore'',
      translatedTitle = ''Lore'', originalUpdatedAt = ''2024-01-15T10:30:00.000Z'',
      translatedAt = ts\<rparr>"

definition ex_chain :: "OutlineDocument list" where
  "ex_chain = [ex_doc ''A'' ''Lore'' None ''u'', ex_doc ''B'' ''Characters'' (Some ''A'') ''u'',
               ex_doc ''C'' ''Arthur'' (Some ''B'') ''u'']"

definition ex_forest :: "OutlineDocument list" where
  "ex_forest = [ex_doc ''A'' ''Lore'' None ''u'', ex_doc ''B'' ''Characters'' (Some ''A'') ''u'',
                ex_doc ''C'' ''Arthur'' (Some ''B'') ''u'', ex_doc ''D'' ''Places'' (Some ''Z'') ''u'']"

definition ex_cycle :: "OutlineDocument list" where
  "ex_cycle = [ex_doc ''A'' ''Lore'' (Some ''B'') ''u'', ex_doc ''B'' ''Characters'' (Some ''A'') ''u'']"

definition ex_depth :: "string \<Rightarrow> nat" where
  "ex_depth s = (if s = ''A'' then 0 else if s = ''B'' then 1 else 2)"

definition ex_env :: environment where
  "ex_env = \<lparr>isAlreadyInEnglish = (\<lambda>s. True), chat_title = (\<lambda>n s. None),
     chat_content = (\<lambda>n s. None), list_throws = (\<lambda>n. False), info_throws = (\<lambda>n. False),
     create_throws = (\<lambda>n. False), new_id = (\<lambda>n. replicate (Suc n) CHR ''t''),
     clock_now = (\<lambda>n. ''2024-01-15T15:45:00.000Z''), write_result = (\<lambda>n. Written),
     parse_date = ex_date\<rparr>"

definition ex_cfg :: "js_number option \<Rightarrow> Config" where
  "ex_cfg m = \<lparr>sourceCollectionId = ''src'', targetCollectionId = ''dst'', maxSpendingUsd = m,
     batchSize = None, dryRun = False\<rparr>"

definition ex_world :: "OutlineDocument list \<Rightarrow> world" where
  "ex_world ds = \<lparr>tick = 0, calls = [], server = ds,
     tracker = \<lparr>translations' = Map.empty, prototype' = None, stored = Missing\<rparr>,
     folderMappings = Map.empty\<rparr>"

definition ex_target :: "string \<Rightarrow> string \<Rightarrow> string option \<Rightarrow> OutlineDocument" where
  "ex_target i ti p =
     \<lparr>doc_id = i, doc_title = ti, doc_text = [], doc_emoji = None,
      doc_collectionId = ''dst'', doc_parentDocumentId = p, doc_updatedAt = ''u''\<rparr>"



definition ex_twins :: "OutlineDocument list" where
  "ex_twins = [ex_doc ''A'' ''Lore'' None ''u'', ex_doc ''B1'' ''Notes'' (Some ''A'') ''u'',
               ex_doc ''B2'' ''Notes'' (Some ''A'') ''u'', ex_doc ''L1'' ''Arthur'' (Some ''B1'') ''u'',
               ex_doc ''L2'' ''Merlin'' (Some ''B2'') ''u'']"

text \<open>A run that resumes: the folder A is in the ledger and in the destination
  collection; the folders N1 and N2, of the same title, lie under different
  parents.\<close>

definition ex_resume :: "OutlineDocument list" where
  "ex_resume = [ex_doc ''A'' ''Lore'' None ''u'',
                ex_doc ''B1'' ''Characters'' (Some ''A'') ''u'',
                ex_doc ''B2'' ''Places'' (Some ''A'') ''u'',
                ex_doc ''N1'' ''Notes'' (Some ''B1'') ''u'',
                ex_doc ''N2'' ''Notes'' (Some ''B2'') ''u'',
                ex_doc ''L1'' ''Arthur'' (Some ''N1'') ''u'',
                ex_doc ''L2'' ''Camelot'' (Some ''N2'') ''u'']"

definition ex_level :: "string \<Rightarrow> nat" where
  "ex_level s = (if s = ''A'' then 0 else if s = ''B1'' \<or> s = ''B2'' then 1
                 else if s = ''N1'' \<or> s = ''N2'' then 2 else 3)"

definition ex_resumed :: world where
  "ex_resumed =
     \<lparr>tick = 0, calls = [],
      server = ex_resume @ [ex_target ''A-translated'' ''Lore'' None],
      tracker = \<lparr>translations' = [''A'' \<mapsto> ex_entry ''2024-01-15T15:45:00.000Z''],
                 prototype' = None,
                 stored = Stored [''A'' \<mapsto> ex_entry ''2024-01-15T15:45:00.000Z'']\<rparr>,
      folderMappings = Map.empty\<rparr>"

definition ex_env_ok :: environment where
  "ex_env_ok = ex_env\<lparr>chat_content := \<lambda>n s. Some s\<rparr>"

section \<open>Properties of the tracker and the cost gate\<close>


lemma saveTranslations_throws:
  "fst (saveTranslations (WriteThrows f) t) = Inl WriteError"
  by simp

lemma getTranslatedDocument_own:
  "translations' t k = Some r \<Longrightarrow> getTranslatedDocument t k = Some (Entry r)"
  by (simp add: getTranslatedDocument_def)

lemma inherited_default:
  "inherited None k = (if k \<in> set object_prototype_keys then Some Builtin else None)"
  by (simp add: inherited_def object_prototype_keys_def)

lemma getTranslatedDocument_plain:
  "prototype' t = None \<Longrightarrow> k \<notin> set object_prototype_keys \<Longrightarrow>
     getTranslatedDocument t k = map_option Entry (translations' t k)"
  by (simp add: getTranslatedDocument_def inherited_default split: option.splits)

lemma isDocumentTranslated_plain:
  "prototype' t = None \<Longrightarrow> k \<notin> set object_prototype_keys \<Longrightarrow>
     isDocumentTranslated t k = (translations' t k \<noteq> None)"
  by (auto simp: isDocumentTranslated_def inherited_default)

text \<open>
  C3. The ledger entry of a document is the record that \<open>getTranslatedDocument\<close>
  reads under its identifier. \<open>needsUpdate\<close> is false for a document without
  a ledger entry; with an entry (and timestamps that parse as dates) it is true
  exactly when the document's \<open>updatedAt\<close> is strictly later than the entry's
  \<open>translatedAt\<close>, hence false when it is earlier or equal.
\<close>

theorem needsUpdate_correct:
  "((\<forall>e. getTranslatedDocument t (doc_id doc) \<noteq> Some (Entry e)) \<longrightarrow>
      \<not> needsUpdate date t doc) \<and>
   (getTranslatedDocument t (doc_id doc) = Some (Entry e) \<and> date (doc_updatedAt doc) = Some a \<and>
      date (translatedAt e) = Some b \<longrightarrow>
        (needsUpdate date t doc \<longleftrightarrow> a > b) \<and> (a \<le> b \<longrightarrow> \<not> needsUpdate date t doc))"
proof -
  have 1: "\<not> needsUpdate date t doc"
    if "\<forall>e. getTranslatedDocument t (doc_id doc) \<noteq> Some (Entry e)"
  proof (cases "getTranslatedDocument t (doc_id doc)")
    case None
    then show ?thesis by (simp add: needsUpdate_def)
  next
    case (Some v)
    with that show ?thesis by (cases v) (simp_all add: needsUpdate_def split: option.splits)
  qed
  have 2: "(needsUpdate date t doc \<longleftrightarrow> a > b) \<and> (a \<le> b \<longrightarrow> \<not> needsUpdate date t doc)"
    if "getTranslatedDocument t (doc_id doc) = Some (Entry e)" "date (doc_updatedAt doc) = Some a"
      "date (translatedAt e) = Some b"
    using that by (simp add: needsUpdate_def)
  from 1 2 show ?thesis by blast
qed

theorem needsUpdate_correct_witness:
  "\<not> needsUpdate ex_date \<lparr>translations' = Map.empty, prototype' = None, stored = Missing\<rparr>
        (ex_doc ''A'' ''Lore'' None ''2024-01-15T15:45:00.000Z'') \<and>
   \<not> needsUpdate ex_date \<lparr>translations' = Map.empty, prototype' = None, stored = Missing\<rparr>
        (ex_doc ''constructor'' ''Lore'' None ''2024-01-15T15:45:00.000Z'') \<and>
   needsUpdate ex_date
        \<lparr>translations' = [''A'' \<mapsto> ex_entry ''2024-01-15T10:30:00.000Z''], prototype' = None,
         stored = Missing\<rparr>
        (ex_doc ''A'' ''Lore'' None ''2024-01-15T15:45:00.000Z'') \<and>
   \<not> needsUpdate ex_date
        \<lparr>translations' = [''A'' \<mapsto> ex_entry ''2024-01-15T15:45:00.000Z''], prototype' = None,
         stored = Missing\<rparr>
        (ex_doc ''A'' ''Lore'' None ''2024-01-15T10:30:00.000Z'')"
proof -
  let ?t0 = "\<lparr>translations' = Map.empty, prototype' = None, stored = Missing\<rparr>"
  let ?t1 = "\<lparr>translations' = [''A'' \<mapsto> ex_entry ''2024-01-15T10:30:00.000Z''],
              prototype' = None, stored = Missing\<rparr>"
  let ?t2 = "\<lparr>translations' = [''A'' \<mapsto> ex_entry ''2024-01-15T15:45:00.000Z''],
              prototype' = None, stored = Missing\<rparr>"
  have g0: "getTranslatedDocument ?t0 ''A'' = None"
    "getTranslatedDocument ?t0 ''constructor'' = Some Builtin"
    by (simp_all add: getTranslatedDocument_def inherited_def object_prototype_keys_def)
  have g1: "getTranslatedDocument ?t1 ''A'' = Some (Entry (ex_entry ''2024-01-15T10:30:00.000Z''))"
    "getTranslatedDocument ?t2 ''A'' = Some (Entry (ex_entry ''2024-01-15T15:45:00.000Z''))"
    by (simp_all add: getTranslatedDocument_def)
  from needsUpdate_correct [where t = ?t0
      and doc = "ex_doc ''A'' ''Lore'' None ''2024-01-15T15:45:00.000Z''" and date = ex_date] g0
  have 1: "\<not> needsUpdate ex_date ?t0 (ex_doc ''A'' ''Lore'' None ''2024-01-15T15:45:00.000Z'')"
    by (simp add: ex_doc_def)
  from needsUpdate_correct [where t = ?t0
      and doc = "ex_doc ''constructor'' ''Lore'' None ''2024-01-15T15:45:00.000Z''"
      and date = ex_date] g0
  have 2: "\<not> needsUpdate ex_date ?t0
      (ex_doc ''constructor'' ''Lore'' None ''2024-01-15T15:45:00.000Z'')"
    by (simp add: ex_doc_def)
  from needsUpdate_correct [where t = ?t1
      and doc = "ex_doc ''A'' ''Lore'' None ''2024-01-15T15:45:00.000Z''"
      and e = "ex_entry ''2024-01-15T10:30:00.000Z''" and date = ex_date
      and a = 1705333500000 and b = 1705314600000] g1
  have 3: "needsUpdate ex_date ?t1 (ex_doc ''A'' ''Lore'' None ''2024-01-15T15:45:00.000Z'')"
    by (simp add: ex_doc_def ex_entry_def ex_date_def)
  from needsUpdate_correct [where t = ?t2
      and doc = "ex_doc ''A'' ''Lore'' None ''2024-01-15T10:30:00.000Z''"
      and e = "ex_entry ''2024-01-15T15:45:00.000Z''" and date = ex_date
      and a = 1705314600000 and b = 1705333500000] g1
  have 4: "\<not> needsUpdate ex_date ?t2 (ex_doc ''A'' ''Lore'' None ''2024-01-15T10:30:00.000Z'')"
    by (simp add: ex_doc_def ex_entry_def ex_date_def)
  from 1 2 3 4 show ?thesis by simp
qed


lemma assign_proto:
  "k = ''__proto__'' \<Longrightarrow> translations' t k = None \<Longrightarrow> assign k r t = t\<lparr>prototype' := Some r\<rparr>"
  by (simp add: assign_def)





text \<open>
  C9. A configured ceiling of exactly 0 is falsy, so it is never compared: both
  checks pass for every estimated cost.
\<close>

theorem zero_ceiling_is_no_limit:
  "confirmCostWithUser estimatedCost (Some (Num 0)) \<and>
   checkSpendingLimit estimatedCost (Some (Num 0))"
  by (simp add: confirmCostWithUser_def checkSpendingLimit_def)

section \<open>Properties of the hierarchy\<close>

lemma walk_None: "walk hp None path = Some path" by (simp add: walk.simps)
lemma walk_Some: "walk hp (Some a) path = walk hp (parent (hp ! a)) (a # path)"
  by (subst walk.simps) simp

lemma chain_walk: "chain hp cur pre \<Longrightarrow> walk hp cur acc = Some (pre @ acc)"
  by (induction arbitrary: acc rule: chain.induct) (simp_all add: walk_None walk_Some)

lemma walk_chain:
  assumes "walk hp cur acc = Some path"
  shows "\<exists>pre. chain hp cur pre \<and> path = pre @ acc"
proof (rule walk.raw_induct
    [where P = "\<lambda>hp cur acc path. \<exists>pre. chain hp cur pre \<and> path = pre @ acc", OF _ assms])
  fix w hp cur acc path
  assume IH: "\<And>hp cur acc path. w hp cur acc = Some path
      \<Longrightarrow> \<exists>pre. chain hp cur pre \<and> path = pre @ acc"
    and eq: "(case cur of None \<Rightarrow> Some acc
              | Some a \<Rightarrow> w hp (parent (hp ! a)) (a # acc)) = Some path"
  show "\<exists>pre. chain hp cur pre \<and> path = pre @ acc"
  proof (cases cur)
    case None
    with eq show ?thesis by (auto intro: chain_None)
  next
    case (Some a)
    with eq have "w hp (parent (hp ! a)) (a # acc) = Some path" by simp
    from IH [OF this] obtain pre where "chain hp (parent (hp ! a)) pre" "path = pre @ a # acc"
      by blast
    with Some show ?thesis by (auto intro: chain_Some)
  qed
qed

lemma finite_parent_rel: "finite (parent_rel hp)"
proof -
  have "parent_rel hp \<subseteq> (\<lambda>a. (a, the (parent (hp ! a)))) ` {..<length hp}"
    by (auto simp: parent_rel_def image_iff)
  then show ?thesis by (rule finite_surj [rotated]) simp
qed

lemma chain_exists:
  assumes ac: "acyclic (parent_rel hp)" and cl: "closed_heap hp"
  shows "a < length hp \<Longrightarrow> \<exists>pre. chain hp (Some a) pre"
proof (induction a rule: wf_induct_rule [OF finite_acyclic_wf_converse [OF finite_parent_rel ac]])
  case (1 a)
  show ?case
  proof (cases "parent (hp ! a)")
    case None
    then have "chain hp (Some a) ([] @ [a])" by (intro chain_Some) (simp add: chain_None)
    then show ?thesis by blast
  next
    case (Some p)
    with 1(2) have "(p, a) \<in> (parent_rel hp)\<inverse>" "p < length hp"
      using cl by (auto simp: parent_rel_def closed_heap_def)
    from 1(1) [OF this] obtain pre where "chain hp (Some p) pre" by blast
    with Some have "chain hp (Some a) (pre @ [a])" by (intro chain_Some) simp
    then show ?thesis by blast
  qed
qed

lemma acyclic_image:
  assumes "acyclic s" and "\<And>a b. (a, b) \<in> r \<Longrightarrow> (f a, f b) \<in> s"
  shows "acyclic r"
proof -
  have "(a, b) \<in> r\<^sup>+ \<Longrightarrow> (f a, f b) \<in> s\<^sup>+" for a b
    by (induction rule: trancl.induct) (auto dest: assms(2) intro: trancl_into_trancl)
  with assms(1) show ?thesis unfolding acyclic_def by blast
qed

lemma first_pass_indexed:
  "first_pass docs (hp, dm, sh) = (hp', dm', sh') \<Longrightarrow> set docs \<subseteq> D \<Longrightarrow> indexed D hp dm
     \<Longrightarrow> indexed D hp' dm'"
proof (induction docs arbitrary: hp dm sh)
  case Nil
  then show ?case by simp
next
  case (Cons doc docs)
  have "indexed D (hp @ [\<lparr>document = doc, children = [], parent = None\<rparr>])
          (dm(doc_id doc \<mapsto> length hp))"
    using Cons.prems(2,3) unfolding indexed_def
    by (simp add: nth_append) (metis less_Suc_eq nat_neq_iff)
  with Cons show ?case by auto
qed

lemma first_pass_dom:
  "first_pass docs (hp, dm, sh) = (hp', dm', sh') \<Longrightarrow> dom dm' = dom dm \<union> doc_id ` set docs"
  by (induction docs arbitrary: hp dm sh) auto

lemma first_pass_same_index:
  "first_pass docs (hp, m, m) = (hp', dm', sh') \<Longrightarrow> sh' = dm'"
  by (induction docs arbitrary: hp m) auto

lemma first_pass_no_parent:
  "first_pass docs (hp, dm, sh) = (hp', dm', sh') \<Longrightarrow>
     (\<forall>a<length hp. parent (hp ! a) = None) \<Longrightarrow> (\<forall>a<length hp'. parent (hp' ! a) = None)"
proof (induction docs arbitrary: hp dm sh)
  case Nil
  then show ?case by simp
next
  case (Cons doc docs)
  have "\<forall>a<length (hp @ [\<lparr>document = doc, children = [], parent = None\<rparr>]).
          parent ((hp @ [\<lparr>document = doc, children = [], parent = None\<rparr>]) ! a) = None"
    using Cons.prems(2) by (auto simp: nth_append)
  with Cons show ?case by auto
qed

lemma nth_update_field:
  assumes "\<And>x. f (g x) = f x"
  shows "f ((xs[i := g (xs ! i)]) ! j) = f (xs ! j)"
proof (cases "i < length xs")
  case True
  then show ?thesis using assms by (cases "i = j") (simp_all add: nth_list_update)
next
  case False
  then have "xs[i := g (xs ! i)] = xs" by (intro list_update_beyond) simp
  then show ?thesis by simp
qed

lemma second_pass_step_documents:
  "map document (hp[p := (hp ! p)\<lparr>children := c\<rparr>]) = map document hp"
  "map document (hp[n := (hp ! n)\<lparr>parent := q\<rparr>]) = map document hp"
  by (simp_all add: list_eq_iff_nth_eq
        nth_update_field [where f = document and g = "\<lambda>x. x\<lparr>children := c\<rparr>"]
        nth_update_field [where f = document and g = "\<lambda>x. x\<lparr>parent := q\<rparr>"])

lemma indexed_cong:
  "map document hp' = map document hp \<Longrightarrow> indexed D hp dm \<Longrightarrow> indexed D hp' dm"
proof -
  assume m: "map document hp' = map document hp" and i: "indexed D hp dm"
  from m have l: "length hp' = length hp" by (metis length_map)
  have "document (hp' ! a) = document (hp ! a)" if "a < length hp" for a
    using m that l by (metis nth_map)
  with i l show ?thesis by (auto simp: indexed_def)
qed

lemma second_pass_inv:
  "second_pass dm ds (hp, roots) = (hp', roots') \<Longrightarrow> set ds \<subseteq> D \<Longrightarrow> indexed D hp dm
     \<Longrightarrow> linked D dm hp
     \<Longrightarrow> map document hp' = map document hp \<and> linked D dm hp'"
proof (induction ds arbitrary: hp roots)
  case Nil
  then show ?case by simp
next
  case (Cons doc ds)
  show ?case
  proof (cases "dm (doc_id doc)")
    case None
    with Cons show ?thesis by simp
  next
    case (Some node)
    show ?thesis
    proof (cases "truthy_str (doc_parentDocumentId doc) \<and> dm (the (doc_parentDocumentId doc)) \<noteq> None")
      case False
      with Some Cons.prems have
        "\<exists>r. second_pass dm ds (hp, r) = (hp', roots')"
        by (auto split: option.splits)
      with Cons show ?thesis by auto
    next
      case True
      then obtain pid p where pid: "doc_parentDocumentId doc = Some pid" "pid \<noteq> []" "dm pid = Some p"
        by (cases "doc_parentDocumentId doc") auto
      define hp1 where "hp1 = hp[p := (hp ! p)\<lparr>children := children (hp ! p) @ [node]\<rparr>]"
      define hp2 where "hp2 = hp1[node := (hp1 ! node)\<lparr>parent := Some p\<rparr>]"
      from Cons.prems(1) Some pid have sp: "second_pass dm ds (hp2, roots) = (hp', roots')"
        by (simp add: hp1_def hp2_def Let_def)
      have docs: "map document hp2 = map document hp"
        unfolding hp2_def hp1_def by (simp add: second_pass_step_documents)
      have len: "length hp2 = length hp" unfolding hp2_def hp1_def by simp
      have ix: "indexed D hp2 dm" using docs Cons.prems(3) by (rule indexed_cong)
      have par: "parent (hp2 ! a) = (if a = node then Some p else parent (hp ! a))"
        if "a < length hp" for a
        using that unfolding hp2_def hp1_def
        by (simp add: nth_list_update
              nth_update_field [where f = parent
                and g = "\<lambda>x. x\<lparr>children := children (hp ! p) @ [node]\<rparr>"])
      have "linked D dm hp2"
        unfolding linked_def
      proof (intro allI impI)
        fix a q assume a: "a < length hp2" and q: "parent (hp2 ! a) = Some q"
        show "\<exists>d\<in>D. dm (doc_id d) = Some a \<and>
           (\<exists>pid. doc_parentDocumentId d = Some pid \<and> pid \<noteq> [] \<and> dm pid = Some q)"
        proof (cases "a = node")
          case True
          with q a len par have "q = p" by simp
          with True Some pid Cons.prems(2) show ?thesis by auto
        next
          case False
          with q a len par have "parent (hp ! a) = Some q" by simp
          with Cons.prems(4) a len show ?thesis unfolding linked_def by simp
        qed
      qed
      from Cons.IH [OF sp _ ix this] Cons.prems(2) docs show ?thesis by simp
    qed
  qed
qed

lemma chain_props:
  "chain hp cur pre \<Longrightarrow>
     (cur = None \<longrightarrow> pre = []) \<and>
     (\<forall>a. cur = Some a \<longrightarrow> pre \<noteq> [] \<and> last pre = a \<and> parent (hp ! hd pre) = None \<and>
        (\<forall>k. Suc k < length pre \<longrightarrow> parent (hp ! (pre ! Suc k)) = Some (pre ! k)))"
proof (induction rule: chain.induct)
  case chain_None
  then show ?case by simp
next
  case (chain_Some a pre)
  show ?case
  proof (cases "parent (hp ! a)")
    case None
    with chain_Some.IH have "pre = []" by simp
    with None show ?thesis by simp
  next
    case (Some p)
    with chain_Some.IH have ne: "pre \<noteq> []" and l: "last pre = p"
      and r: "parent (hp ! hd pre) = None"
      and links: "\<And>k. Suc k < length pre \<Longrightarrow> parent (hp ! (pre ! Suc k)) = Some (pre ! k)"
      by auto
    have "parent (hp ! ((pre @ [a]) ! Suc k)) = Some ((pre @ [a]) ! k)"
      if "Suc k < length (pre @ [a])" for k
    proof (cases "Suc k < length pre")
      case True
      then show ?thesis using links by (simp add: nth_append)
    next
      case False
      with that have k: "Suc k = length pre" by simp
      then have "k = length pre - 1" by simp
      then have "pre ! k = last pre" using ne by (simp add: last_conv_nth)
      with k l Some show ?thesis by (simp add: nth_append)
    qed
    with ne r show ?thesis by simp
  qed
qed

lemma chain_not_in_cycle:
  assumes "\<forall>a\<in>S. \<exists>p\<in>S. parent (hp ! a) = Some p"
  shows "chain hp cur pre \<Longrightarrow> cur \<notin> Some ` S"
  by (induction rule: chain.induct) (use assms in auto)

lemma walk_cycle_None:
  assumes "\<forall>a\<in>S. \<exists>p\<in>S. parent (hp ! a) = Some p" and "a \<in> S"
  shows "walk hp (Some a) acc = None"
proof (cases "walk hp (Some a) acc")
  case None
  then show ?thesis .
next
  case (Some path)
  from walk_chain [OF this] obtain pre where "chain hp (Some a) pre" by blast
  from chain_not_in_cycle [OF assms(1) this] assms(2) show ?thesis by blast
qed

lemma second_pass_roots:
  "second_pass dm ds (hp, roots) = (hp', roots') \<Longrightarrow>
     set roots \<subseteq> set roots' \<and>
     (\<forall>d\<in>set ds. \<forall>a. dm (doc_id d) = Some a \<longrightarrow>
        \<not> (truthy_str (doc_parentDocumentId d) \<and> dm (the (doc_parentDocumentId d)) \<noteq> None)
        \<longrightarrow> a \<in> set roots')"
proof (induction ds arbitrary: hp roots)
  case Nil
  then show ?case by simp
next
  case (Cons doc ds)
  have "\<exists>hp0 r0. second_pass dm ds (hp0, r0) = (hp', roots') \<and> set roots \<subseteq> set r0 \<and>
      (\<forall>a. dm (doc_id doc) = Some a \<longrightarrow>
        \<not> (truthy_str (doc_parentDocumentId doc) \<and> dm (the (doc_parentDocumentId doc)) \<noteq> None)
        \<longrightarrow> a \<in> set r0)"
  proof (cases "dm (doc_id doc)")
    case None
    with Cons.prems show ?thesis by auto
  next
    case (Some node)
    show ?thesis
    proof (cases "truthy_str (doc_parentDocumentId doc) \<and> dm (the (doc_parentDocumentId doc)) \<noteq> None")
      case True
      with Some Cons.prems show ?thesis by (fastforce simp: Let_def)
    next
      case False
      with Some Cons.prems have "second_pass dm ds (hp, roots @ [node]) = (hp', roots')"
        by (auto split: option.splits)
      with Some show ?thesis by (intro exI [of _ hp] exI [of _ "roots @ [node]"]) auto
    qed
  qed
  then obtain hp0 r0 where
    sp: "second_pass dm ds (hp0, r0) = (hp', roots')" and sub: "set roots \<subseteq> set r0"
    and here: "\<And>a. dm (doc_id doc) = Some a \<Longrightarrow>
        \<not> (truthy_str (doc_parentDocumentId doc) \<and> dm (the (doc_parentDocumentId doc)) \<noteq> None)
        \<Longrightarrow> a \<in> set r0"
    by blast
  from Cons.IH [OF sp] sub here show ?case by auto
qed

lemma buildHierarchy_fresh:
  assumes "buildHierarchy documents new_DocumentHierarchy = (rootNodes, h)"
  obtains hp1 dm where
    "first_pass documents ([], Map.empty, Map.empty) = (hp1, dm, dm)"
    "second_pass dm documents (hp1, []) = (nodes h, rootNodes)"
    "sourceHierarchy h = dm"
    "dom dm = doc_id ` set documents"
    "indexed (set documents) (nodes h) dm"
    "linked (set documents) dm (nodes h)"
proof -
  obtain hp1 dm sh where fp: "first_pass documents ([], Map.empty, Map.empty) = (hp1, dm, sh)"
    by (cases "first_pass documents ([], Map.empty, Map.empty)") auto
  from first_pass_same_index [OF fp] have sh: "sh = dm" .
  obtain hp2 roots where sp: "second_pass dm documents (hp1, []) = (hp2, roots)"
    by (cases "second_pass dm documents (hp1, [])") auto
  from assms fp sp sh have h: "h = \<lparr>nodes = hp2, sourceHierarchy = dm\<rparr>" and r: "roots = rootNodes"
    by (simp_all add: buildHierarchy_def new_DocumentHierarchy_def)
  have ix1: "indexed (set documents) hp1 dm"
    by (rule first_pass_indexed [OF fp]) (simp_all add: indexed_def)
  have "\<forall>a<length hp1. parent (hp1 ! a) = None"
    by (rule first_pass_no_parent [OF fp]) simp
  then have l1: "linked (set documents) dm hp1" by (simp add: linked_def)
  from second_pass_inv [OF sp _ ix1 l1]
  have m: "map document hp2 = map document hp1" and l2: "linked (set documents) dm hp2" by simp_all
  from indexed_cong [OF m ix1] have ix2: "indexed (set documents) hp2 dm" .
  from first_pass_dom [OF fp] have d: "dom dm = doc_id ` set documents" by simp
  show thesis
    by (rule that [of hp1 dm]) (use fp sp sh h r ix2 l2 d in simp_all)
qed

lemma built_closed:
  assumes "indexed D hp dm" "linked D dm hp"
  shows "closed_heap hp"
  using assms unfolding closed_heap_def indexed_def linked_def by blast

lemma built_edges:
  assumes ix: "indexed (set documents) hp dm" and ln: "linked (set documents) dm hp"
    and e: "(a, p) \<in> parent_rel hp"
  shows "(doc_id (document (hp ! a)), doc_id (document (hp ! p))) \<in> declared_rel documents"
proof -
  from e have a: "a < length hp" and p: "parent (hp ! a) = Some p" by (auto simp: parent_rel_def)
  from ln a p obtain d pid where d: "d \<in> set documents" "dm (doc_id d) = Some a"
    "doc_parentDocumentId d = Some pid" "pid \<noteq> []" "dm pid = Some p"
    unfolding linked_def by blast
  from ix d(2) have ia: "doc_id (document (hp ! a)) = doc_id d" by (simp add: indexed_def)
  from ix d(5) have ip: "doc_id (document (hp ! p)) = pid" "document (hp ! p) \<in> set documents"
    by (simp_all add: indexed_def)
  then have "pid \<in> doc_id ` set documents" by force
  with d ia ip show ?thesis unfolding declared_rel_def by auto
qed

lemma built_acyclic:
  assumes "acyclic (declared_rel documents)"
    and "indexed (set documents) hp dm" and "linked (set documents) dm hp"
  shows "acyclic (parent_rel hp)"
  by (rule acyclic_image [OF assms(1), where f = "\<lambda>a. doc_id (document (hp ! a))"])
     (rule built_edges [OF assms(2,3)])

text \<open>
  C2 (as amended). The second pass links a node to the node of whatever parent
  identifier its document declares, so the forest has a cycle exactly when the
  input declares one. When the parent identifiers declared among the input's own
  identifiers are acyclic, the forest built on a fresh hierarchy has no node that
  is its own transitive ancestor, and \<open>getDocumentPath\<close> returns for every
  identifier.
\<close>

theorem buildHierarchy_acyclic:
  assumes "acyclic (declared_rel documents)"
  shows "acyclic (forest_parent (snd (buildHierarchy documents new_DocumentHierarchy))) \<and>
         (\<forall>documentId. \<exists>path.
            getDocumentPath (snd (buildHierarchy documents new_DocumentHierarchy)) documentId
              = Some path)"
proof -
  obtain rootNodes h where b: "buildHierarchy documents new_DocumentHierarchy = (rootNodes, h)"
    by (cases "buildHierarchy documents new_DocumentHierarchy") auto
  from b obtain hp1 dm where sh: "sourceHierarchy h = dm"
    and ix: "indexed (set documents) (nodes h) dm"
    and ln: "linked (set documents) dm (nodes h)"
    by (rule buildHierarchy_fresh)
  have ac: "acyclic (parent_rel (nodes h))" by (rule built_acyclic [OF assms ix ln])
  have cl: "closed_heap (nodes h)" by (rule built_closed [OF ix ln])
  have "\<exists>path. getDocumentPath h documentId = Some path" for documentId
  proof (cases "sourceHierarchy h documentId")
    case None
    then show ?thesis by (simp add: getDocumentPath_def walk_None)
  next
    case (Some a)
    with sh ix have "a < length (nodes h)" by (simp add: indexed_def)
    from chain_exists [OF ac cl this] obtain pre where "chain (nodes h) (Some a) pre" by blast
    from chain_walk [OF this, of "[]"] Some show ?thesis by (simp add: getDocumentPath_def)
  qed
  with ac b show ?thesis by (simp add: forest_parent_def)
qed

lemma distinct_ids_eq:
  "distinct (map doc_id documents) \<Longrightarrow> d \<in> set documents \<Longrightarrow> d' \<in> set documents
     \<Longrightarrow> doc_id d = doc_id d' \<Longrightarrow> d = d'"
  by (meson distinct_map inj_onD)

text \<open>
  C4 (as amended). For a hierarchy built on a fresh instance: when the declared
  parent identifiers are acyclic, \<open>getDocumentPath\<close> of every identifier of
  the input returns a non-empty sequence whose first node has no parent, whose
  last node is the node indexed under the identifier, and in which every node is
  the parent of the next; for an identifier that is not in the input it returns
  the empty sequence; and, identifiers being unique, a document whose declared
  parent identifier is not in the input is among the returned roots and its path
  is the single node holding it.
\<close>

theorem getDocumentPath_correct:
  assumes b: "buildHierarchy documents new_DocumentHierarchy = (rootNodes, h)"
  shows
   "(acyclic (declared_rel documents) \<longrightarrow>
       (\<forall>d\<in>set documents. \<exists>path.
          getDocumentPath h (doc_id d) = Some path \<and> path \<noteq> [] \<and>
          parent (nodes h ! hd path) = None \<and>
          sourceHierarchy h (doc_id d) = Some (last path) \<and>
          doc_id (document (nodes h ! last path)) = doc_id d \<and>
          (\<forall>k. Suc k < length path \<longrightarrow>
             parent (nodes h ! (path ! Suc k)) = Some (path ! k)))) \<and>
    (documentId \<notin> doc_id ` set documents \<longrightarrow> getDocumentPath h documentId = Some []) \<and>
    (distinct (map doc_id documents) \<and> d \<in> set documents \<and>
       doc_parentDocumentId d = Some p \<and> p \<notin> doc_id ` set documents \<longrightarrow>
       (\<exists>a. getDocumentPath h (doc_id d) = Some [a] \<and> a \<in> set rootNodes \<and>
            document (nodes h ! a) = d))"
proof -
  from b obtain hp1 dm where
    sp: "second_pass dm documents (hp1, []) = (nodes h, rootNodes)"
    and sh: "sourceHierarchy h = dm"
    and dom: "dom dm = doc_id ` set documents"
    and ix: "indexed (set documents) (nodes h) dm"
    and ln: "linked (set documents) dm (nodes h)"
    by (rule buildHierarchy_fresh)
  have known: "\<exists>path.
          getDocumentPath h (doc_id d) = Some path \<and> path \<noteq> [] \<and>
          parent (nodes h ! hd path) = None \<and>
          sourceHierarchy h (doc_id d) = Some (last path) \<and>
          doc_id (document (nodes h ! last path)) = doc_id d \<and>
          (\<forall>k. Suc k < length path \<longrightarrow>
             parent (nodes h ! (path ! Suc k)) = Some (path ! k))"
    if ac: "acyclic (declared_rel documents)" and d: "d \<in> set documents" for d
  proof -
    from d dom obtain a where a: "dm (doc_id d) = Some a" by force
    with ix have al: "a < length (nodes h)" and ai: "doc_id (document (nodes h ! a)) = doc_id d"
      by (simp_all add: indexed_def)
    have "acyclic (parent_rel (nodes h))" by (rule built_acyclic [OF ac ix ln])
    from chain_exists [OF this built_closed [OF ix ln] al]
    obtain pre where c: "chain (nodes h) (Some a) pre" by blast
    from chain_walk [OF c, of "[]"] a sh have "getDocumentPath h (doc_id d) = Some pre"
      by (simp add: getDocumentPath_def)
    with chain_props [OF c] a sh ai show ?thesis by simp
  qed
  have unknown: "getDocumentPath h documentId = Some []"
    if "documentId \<notin> doc_id ` set documents"
  proof -
    from that dom have "dm documentId = None" by blast
    with sh show ?thesis by (simp add: getDocumentPath_def walk_None)
  qed
  have dangling: "\<exists>a. getDocumentPath h (doc_id d) = Some [a] \<and> a \<in> set rootNodes \<and>
            document (nodes h ! a) = d"
    if dist: "distinct (map doc_id documents)" and d: "d \<in> set documents"
      and p: "doc_parentDocumentId d = Some p" "p \<notin> doc_id ` set documents"
  proof -
    from d dom obtain a where a: "dm (doc_id d) = Some a" by force
    with ix have al: "a < length (nodes h)" and ai: "doc_id (document (nodes h ! a)) = doc_id d"
      and am: "document (nodes h ! a) \<in> set documents"
      by (simp_all add: indexed_def)
    from distinct_ids_eq [OF dist am d ai] have doc: "document (nodes h ! a) = d" .
    from p dom have unres: "dm p = None" by blast
    have "parent (nodes h ! a) = None"
    proof (rule ccontr)
      assume "parent (nodes h ! a) \<noteq> None"
      then obtain q where "parent (nodes h ! a) = Some q" by blast
      with ln al obtain d' pid where d': "d' \<in> set documents" "dm (doc_id d') = Some a"
        "doc_parentDocumentId d' = Some pid" "dm pid = Some q"
        unfolding linked_def by blast
      from ix d'(2) ai have "doc_id d' = doc_id d" by (simp add: indexed_def)
      from distinct_ids_eq [OF dist d'(1) d this] d'(3,4) p(1) unres show False by simp
    qed
    then have "getDocumentPath h (doc_id d) = Some [a]"
      using a sh by (simp add: getDocumentPath_def walk_Some walk_None)
    moreover from second_pass_roots [OF sp] d a p(1) unres have "a \<in> set rootNodes" by auto
    ultimately show ?thesis using doc by blast
  qed
  from known unknown dangling show ?thesis by blast
qed

lemma ex_chain_acyclic: "acyclic (declared_rel ex_chain)"
proof -
  have "declared_rel ex_chain \<subseteq> (measure ex_depth)\<inverse>"
    by (auto simp: declared_rel_def ex_chain_def ex_doc_def ex_depth_def)
  moreover have "acyclic ((measure ex_depth)\<inverse>)"
    by (simp add: acyclic_converse wf_acyclic)
  ultimately show ?thesis by (rule acyclic_subset [rotated])
qed

lemma ex_cycle_built:
  "snd (buildHierarchy ex_cycle new_DocumentHierarchy) =
     \<lparr>nodes = [\<lparr>document = ex_doc ''A'' ''Lore'' (Some ''B'') ''u'', children = [1], parent = Some 1\<rparr>,
                \<lparr>document = ex_doc ''B'' ''Characters'' (Some ''A'') ''u'', children = [0], parent = Some 0\<rparr>],
      sourceHierarchy = [''A'' \<mapsto> 0, ''B'' \<mapsto> 1]\<rparr>"
  by (simp add: buildHierarchy_def new_DocumentHierarchy_def ex_cycle_def ex_doc_def)

theorem buildHierarchy_acyclic_witness:
  "acyclic (declared_rel ex_chain) \<and>
   acyclic (forest_parent (snd (buildHierarchy ex_chain new_DocumentHierarchy))) \<and>
   (\<exists>path. getDocumentPath (snd (buildHierarchy ex_chain new_DocumentHierarchy)) ''C'' = Some path)"
  using buildHierarchy_acyclic [OF ex_chain_acyclic] ex_chain_acyclic by blast

text \<open>C2 as stated fails: two documents that declare each other as parent are
  linked into a cycle.\<close>

theorem buildHierarchy_cycle_counterexample:
  "\<not> acyclic (forest_parent (snd (buildHierarchy ex_cycle new_DocumentHierarchy)))"
proof -
  have "(0, 1) \<in> forest_parent (snd (buildHierarchy ex_cycle new_DocumentHierarchy))"
       "(1, 0) \<in> forest_parent (snd (buildHierarchy ex_cycle new_DocumentHierarchy))"
    by (simp_all add: ex_cycle_built forest_parent_def parent_rel_def)
  then have "(0, 0) \<in> (forest_parent (snd (buildHierarchy ex_cycle new_DocumentHierarchy)))\<^sup>+"
    by (rule trancl_trans [OF r_into_trancl r_into_trancl])
  then show ?thesis by (auto simp: acyclic_def)
qed

text \<open>C4 as stated fails on the same input: the path query of a known identifier
  does not return.\<close>

theorem getDocumentPath_cycle_counterexample:
  "getDocumentPath (snd (buildHierarchy ex_cycle new_DocumentHierarchy)) ''A'' = None"
proof -
  let ?hp = "nodes (snd (buildHierarchy ex_cycle new_DocumentHierarchy))"
  have "\<forall>a\<in>{0, 1}. \<exists>p\<in>{0, 1}. parent (?hp ! a) = Some p"
    by (simp add: ex_cycle_built)
  from walk_cycle_None [OF this, of 0 "[]"] show ?thesis
    by (simp add: getDocumentPath_def ex_cycle_built)
qed

lemma ex_forest_acyclic: "acyclic (declared_rel ex_forest)"
proof -
  have "declared_rel ex_forest \<subseteq> (measure ex_depth)\<inverse>"
    by (auto simp: declared_rel_def ex_forest_def ex_doc_def ex_depth_def)
  moreover have "acyclic ((measure ex_depth)\<inverse>)"
    by (simp add: acyclic_converse wf_acyclic)
  ultimately show ?thesis by (rule acyclic_subset [rotated])
qed

theorem getDocumentPath_correct_witness:
  "acyclic (declared_rel ex_forest) \<and>
   (\<exists>path. getDocumentPath (snd (buildHierarchy ex_forest new_DocumentHierarchy)) ''C'' = Some path \<and>
      path \<noteq> [] \<and>
      parent (nodes (snd (buildHierarchy ex_forest new_DocumentHierarchy)) ! hd path) = None \<and>
      sourceHierarchy (snd (buildHierarchy ex_forest new_DocumentHierarchy)) ''C'' = Some (last path)) \<and>
   getDocumentPath (snd (buildHierarchy ex_forest new_DocumentHierarchy)) ''Z'' = Some [] \<and>
   (\<exists>a. getDocumentPath (snd (buildHierarchy ex_forest new_DocumentHierarchy)) ''D'' = Some [a] \<and>
      a \<in> set (fst (buildHierarchy ex_forest new_DocumentHierarchy)))"
proof -
  let ?h = "snd (buildHierarchy ex_forest new_DocumentHierarchy)"
  let ?r = "fst (buildHierarchy ex_forest new_DocumentHierarchy)"
  let ?c = "ex_doc ''C'' ''Arthur'' (Some ''B'') ''u''"
  let ?d = "ex_doc ''D'' ''Places'' (Some ''Z'') ''u''"
  have b: "buildHierarchy ex_forest new_DocumentHierarchy = (?r, ?h)" by simp
  have c: "?c \<in> set ex_forest" "doc_id ?c = ''C''"
    and d: "?d \<in> set ex_forest" "doc_id ?d = ''D''" "doc_parentDocumentId ?d = Some ''Z''"
    and z: "''Z'' \<notin> doc_id ` set ex_forest"
    and dist: "distinct (map doc_id ex_forest)"
    by (simp_all add: ex_forest_def ex_doc_def)
  from getDocumentPath_correct [OF b, where documentId = "''Z''" and d = ?d and p = "''Z''"]
    ex_forest_acyclic c d z dist
  show ?thesis by (metis (no_types, lifting))
qed

lemma scenario_path_C:
  "getDocumentPath (snd (buildHierarchy ex_chain new_DocumentHierarchy)) ''C'' = Some [0, 1, 2]"
  by (simp add: getDocumentPath_def buildHierarchy_def ex_chain_def new_DocumentHierarchy_def
        ex_doc_def walk_None walk_Some)

section \<open>Properties of the services and of the folder resolver\<close>



lemma getDocumentsByCollection_frame:
  "server (snd (getDocumentsByCollection env c w)) = server w"
  "tracker (snd (getDocumentsByCollection env c w)) = tracker w"
  "folderMappings (snd (getDocumentsByCollection env c w)) = folderMappings w"
  by (simp_all add: getDocumentsByCollection_def interact_def)




lemma createDocument_Inl: "createDocument env r w = (Inl e, w') \<Longrightarrow> server w' = server w"
  by (auto simp: createDocument_def interact_def Let_def split: if_splits)





lemma set_mapping_frame:
  "server (set_mapping sd t n w) = server w"
  "tracker (set_mapping sd t n w) = tracker w"
  "calls (set_mapping sd t n w) = calls w"
  "tick (set_mapping sd t n w) = tick w"
  by (simp_all add: set_mapping_def)


lemmas run_defs = main_def new_services_def getDocumentsByCollection_def interact_def
  buildHierarchy_def new_DocumentHierarchy_def documentsToTranslate_def documentsToProcess_def
  slice0_def costEstimate_def estimateBatchCost_def estimateDocumentCost_def
  estimateInputTokens_def estimateOutputTokens_def confirmCostWithUser_def checkSpendingLimit_def
  process_document_def try_document_def isDocumentTranslated_def needsUpdate_def
  getTranslatedDocument_def getDocumentInfo_def nonblank_def is_space_def
  ensureFolderStructure_def getDocumentPath_def walk_None walk_Some
  translateToEnglish_def translateTitle_def createDocument_def track_def addTranslation_def
  new_TranslationTracker_def count_error_def count_skipped_def count_translated_def
  resolve_folder_def search_or_create_def create_folder_def findFolderByName_def set_mapping_def
  assign_def inherited_def object_prototype_keys_def record_field_def


lemma find_None_iff2: "(find P xs = None) = (\<forall>x\<in>set xs. \<not> P x)"
  by (induction xs) auto







section \<open>Properties of the orchestrator\<close>

text \<open>
  C5 (as amended). After the listing of a source collection with documents to
  translate: when the estimated cost of the batch strictly exceeds a configured
  ceiling other than 0, \<open>main\<close> reports the cancellation, the listing is the only
  call that was made (no translation, no creation), the store is unchanged and no
  counter exists; when no ceiling is configured, or the estimate is at or below the
  ceiling, \<open>main\<close> is the per-document loop over the batch. A configured
  ceiling of 0 (or one that is not a number) is no ceiling: whatever the estimate,
  \<open>main\<close> is the per-document loop over the batch.
\<close>

theorem budget_gate:
  assumes l: "getDocumentsByCollection env (sourceCollectionId cfg) (new_services w0)
                = (Inr documents, w1)"
    and d: "documentsToTranslate env (tracker w1) documents \<noteq> []"
    and b: "batch = documentsToProcess cfg (documentsToTranslate env (tracker w1) documents)"
  shows
    "(maxSpendingUsd cfg = Some (Num m) \<and> m \<noteq> 0 \<and> costEstimate cfg batch > m \<longrightarrow>
        main cfg env w0 = Some (CancelledCostLimits, w1) \<and>
        calls w1 = calls w0 @ [ListDocuments (sourceCollectionId cfg)] \<and>
        server w1 = server w0 \<and>
        translations' (tracker w1) = loadTranslations (stored (tracker w0))) \<and>
     (maxSpendingUsd cfg = None \<or> maxSpendingUsd cfg = Some (Num 0) \<or>
      maxSpendingUsd cfg = Some NaN \<or>
      maxSpendingUsd cfg = Some (Num m) \<and> costEstimate cfg batch \<le> m \<longrightarrow>
        main cfg env w0 =
          map_option (\<lambda>(stats, w2). (Completed stats, w2))
            (process_documents cfg env (snd (buildHierarchy documents new_DocumentHierarchy)) 0
               batch
               (\<lparr>total = length batch, translated = 0, skipped = 0, errors = 0,
                 estimatedCostUsd = estimateBatchCost batch\<rparr>, w1)))"
proof -
  from d have ne: "documents \<noteq> []" by (auto simp: documentsToTranslate_def)
  from l have w1: "w1 = interact (ListDocuments (sourceCollectionId cfg)) (new_services w0)"
    by (auto simp: getDocumentsByCollection_def split: if_splits)
  have frame: "calls w1 = calls w0 @ [ListDocuments (sourceCollectionId cfg)]"
    "server w1 = server w0"
    "translations' (tracker w1) = loadTranslations (stored (tracker w0))"
    unfolding w1 by (simp_all add: interact_def new_services_def new_TranslationTracker_def)
  have reject: "main cfg env w0 = Some (CancelledCostLimits, w1)"
    if "maxSpendingUsd cfg = Some (Num m)" "m \<noteq> 0" "costEstimate cfg batch > m"
    using that l d ne b by (simp add: main_def Let_def confirmCostWithUser_def)
  have proceed: "main cfg env w0 =
          map_option (\<lambda>(stats, w2). (Completed stats, w2))
            (process_documents cfg env (snd (buildHierarchy documents new_DocumentHierarchy)) 0
               batch
               (\<lparr>total = length batch, translated = 0, skipped = 0, errors = 0,
                 estimatedCostUsd = estimateBatchCost batch\<rparr>, w1))"
    if "maxSpendingUsd cfg = None \<or> maxSpendingUsd cfg = Some (Num 0) \<or>
      maxSpendingUsd cfg = Some NaN \<or>
      maxSpendingUsd cfg = Some (Num m) \<and> costEstimate cfg batch \<le> m"
    using that l d ne b
    by (auto simp: main_def Let_def confirmCostWithUser_def checkSpendingLimit_def)
  from frame reject proceed show ?thesis by blast
qed

text \<open>C5 as stated fails for the ceiling 0: the estimate 1/2500 exceeds it, and the
  document is translated and created.\<close>

theorem budget_gate_zero_counterexample:
  "costEstimate (ex_cfg (Some (Num 0))) [ex_doc ''A'' ''Lore'' None ''u''] > 0 \<and>
   (case main (ex_cfg (Some (Num 0))) ex_env (ex_world [ex_doc ''A'' ''Lore'' None ''u'']) of
      Some (Completed st, w) \<Rightarrow>
        translated st = 1 \<and>
        calls w = [ListDocuments ''src'', GetDocumentInfo ''A'',
                   TranslateToEnglish ''body'' ''Lore'', TranslateTitle ''Lore'',
                   CreateDocument \<lparr>req_title = ''Lore'', req_text = ''body'', req_emoji = None,
                     req_collectionId = ''dst'', req_parentDocumentId = None\<rparr>,
                   AddTranslation ''A'' ''ttt'']
    | _ \<Rightarrow> False)"
  by (simp add: run_defs ex_cfg_def ex_doc_def ex_env_def ex_world_def Let_def)

theorem budget_gate_witness:
  "main (ex_cfg (Some (Num (1 / 10000)))) ex_env (ex_world [ex_doc ''A'' ''Lore'' None ''u''])
     = Some (CancelledCostLimits,
             interact (ListDocuments ''src'')
               (new_services (ex_world [ex_doc ''A'' ''Lore'' None ''u'']))) \<and>
   main (ex_cfg (Some (Num 1))) ex_env (ex_world [ex_doc ''A'' ''Lore'' None ''u''])
     = map_option (\<lambda>(stats, w2). (Completed stats, w2))
         (process_documents (ex_cfg (Some (Num 1))) ex_env
            (snd (buildHierarchy [ex_doc ''A'' ''Lore'' None ''u''] new_DocumentHierarchy)) 0
            [ex_doc ''A'' ''Lore'' None ''u'']
            (\<lparr>total = 1, translated = 0, skipped = 0, errors = 0,
              estimatedCostUsd = estimateBatchCost [ex_doc ''A'' ''Lore'' None ''u'']\<rparr>,
             interact (ListDocuments ''src'')
               (new_services (ex_world [ex_doc ''A'' ''Lore'' None ''u''])))) \<and>
   costEstimate (ex_cfg (Some (Num 0))) [ex_doc ''A'' ''Lore'' None ''u''] = 1 / 2500 \<and>
   main (ex_cfg (Some (Num 0))) ex_env (ex_world [ex_doc ''A'' ''Lore'' None ''u''])
     = map_option (\<lambda>(stats, w2). (Completed stats, w2))
         (process_documents (ex_cfg (Some (Num 0))) ex_env
            (snd (buildHierarchy [ex_doc ''A'' ''Lore'' None ''u''] new_DocumentHierarchy)) 0
            [ex_doc ''A'' ''Lore'' None ''u'']
            (\<lparr>total = 1, translated = 0, skipped = 0, errors = 0,
              estimatedCostUsd = estimateBatchCost [ex_doc ''A'' ''Lore'' None ''u'']\<rparr>,
             interact (ListDocuments ''src'')
               (new_services (ex_world [ex_doc ''A'' ''Lore'' None ''u'']))))"
proof -
  let ?ds = "[ex_doc ''A'' ''Lore'' None ''u'']"
  let ?w1 = "interact (ListDocuments ''src'') (new_services (ex_world ?ds))"
  have l: "getDocumentsByCollection ex_env (sourceCollectionId (ex_cfg m)) (new_services (ex_world ?ds))
             = (Inr ?ds, ?w1)" for m
    by (simp add: getDocumentsByCollection_def ex_env_def ex_cfg_def ex_world_def ex_doc_def
          new_services_def interact_def)
  have t: "documentsToTranslate ex_env (tracker ?w1) ?ds = ?ds"
    by (simp add: documentsToTranslate_def isDocumentTranslated_def interact_def new_services_def
          new_TranslationTracker_def ex_world_def ex_doc_def inherited_def
          object_prototype_keys_def)
  have b: "?ds = documentsToProcess (ex_cfg m) (documentsToTranslate ex_env (tracker ?w1) ?ds)" for m
    unfolding t by (simp add: documentsToProcess_def slice0_def ex_cfg_def)
  have c: "costEstimate (ex_cfg m) ?ds = 1 / 2500" for m
    by (simp add: run_defs ex_cfg_def ex_doc_def)
  have ne: "documentsToTranslate ex_env (tracker ?w1) ?ds \<noteq> []" unfolding t by simp
  have m: "maxSpendingUsd (ex_cfg x) = x" for x by (simp add: ex_cfg_def)
  from budget_gate [OF l [of "Some (Num (1 / 10000))"] ne b [of "Some (Num (1 / 10000))"],
      where m = "1 / 10000"] c [of "Some (Num (1 / 10000))"] m
  have 1: "main (ex_cfg (Some (Num (1 / 10000)))) ex_env (ex_world ?ds)
      = Some (CancelledCostLimits, ?w1)"
    by simp
  from budget_gate [OF l [of "Some (Num 1)"] ne b [of "Some (Num 1)"], where m = 1]
    c [of "Some (Num 1)"] m
  have 2: "main (ex_cfg (Some (Num 1))) ex_env (ex_world ?ds)
     = map_option (\<lambda>(stats, w2). (Completed stats, w2))
         (process_documents (ex_cfg (Some (Num 1))) ex_env
            (snd (buildHierarchy ?ds new_DocumentHierarchy)) 0 ?ds
            (\<lparr>total = 1, translated = 0, skipped = 0, errors = 0,
              estimatedCostUsd = estimateBatchCost ?ds\<rparr>, ?w1))"
    by simp
  from budget_gate [OF l [of "Some (Num 0)"] ne b [of "Some (Num 0)"], where m = 0] m
  have 3: "main (ex_cfg (Some (Num 0))) ex_env (ex_world ?ds)
     = map_option (\<lambda>(stats, w2). (Completed stats, w2))
         (process_documents (ex_cfg (Some (Num 0))) ex_env
            (snd (buildHierarchy ?ds new_DocumentHierarchy)) 0 ?ds
            (\<lparr>total = 1, translated = 0, skipped = 0, errors = 0,
              estimatedCostUsd = estimateBatchCost ?ds\<rparr>, ?w1))"
    by simp
  from 1 2 3 c [of "Some (Num 0)"] show ?thesis by simp
qed

section \<open>Paths of a built hierarchy\<close>




lemma chain_in_range:
  assumes cl: "closed_heap hp"
  shows "chain hp cur pre \<Longrightarrow> (\<And>a. cur = Some a \<Longrightarrow> a < length hp) \<Longrightarrow> x \<in> set pre
           \<Longrightarrow> x < length hp"
proof (induction rule: chain.induct)
  case chain_None
  then show ?case by simp
next
  case (chain_Some a pre)
  from chain_Some.prems(1) have a: "a < length hp" by simp
  have "\<And>p. parent (hp ! a) = Some p \<Longrightarrow> p < length hp"
    using cl a by (auto simp: closed_heap_def)
  then have "x \<in> set pre \<Longrightarrow> x < length hp"
    by (rule chain_Some.IH)
  with chain_Some.prems(2) a show ?case by auto
qed

lemma getDocumentPath_chain:
  "getDocumentPath h documentId = Some path \<Longrightarrow> chain (nodes h) (sourceHierarchy h documentId) path"
  using walk_chain [of "nodes h" "sourceHierarchy h documentId" "[]" path]
  by (auto simp: getDocumentPath_def)

text \<open>In a hierarchy built on a fresh instance, every node of a path is the node
  indexed under the identifier of its document.\<close>

lemma built_path_indexed:
  assumes ix: "indexed D (nodes h) dm" and ln: "linked D dm (nodes h)"
    and sh: "sourceHierarchy h = dm"
    and p: "getDocumentPath h documentId = Some path" and x: "x \<in> set path"
  shows "dm (doc_id (document (nodes h ! x))) = Some x"
proof -
  from getDocumentPath_chain [OF p] sh have c: "chain (nodes h) (dm documentId) path" by simp
  from x have ne: "path \<noteq> []" by auto
  with chain_props [OF c] obtain a where a: "dm documentId = Some a" "last path = a"
    and links: "\<And>k. Suc k < length path \<Longrightarrow>
        parent (nodes h ! (path ! Suc k)) = Some (path ! k)"
    by (cases "dm documentId") auto
  from ix a(1) have ar: "a < length (nodes h)" and ai: "doc_id (document (nodes h ! a)) = documentId"
    by (simp_all add: indexed_def)
  have range: "y < length (nodes h)" if "y \<in> set path" for y
    using chain_in_range [OF built_closed [OF ix ln] c _ that] a(1) ar by simp
  from x obtain k where k: "k < length path" "path ! k = x" by (auto simp: in_set_conv_nth)
  show ?thesis
  proof (cases "Suc k < length path")
    case True
    from links [OF True] k have "parent (nodes h ! (path ! Suc k)) = Some x" by simp
    moreover have "path ! Suc k < length (nodes h)" using True by (intro range) simp
    ultimately obtain pid where "dm pid = Some x" using ln unfolding linked_def by blast
    with ix show ?thesis by (auto simp: indexed_def)
  next
    case False
    with k have "k = length path - 1" by simp
    with k have "x = last path" using ne by (simp add: last_conv_nth)
    with a ai show ?thesis by simp
  qed
qed



section \<open>The ledger during folder resolution and the loop\<close>

lemma ledger_step_refl: "ledger_step w w" by (simp add: ledger_step_def)


lemma ledger_step_same: "tracker w' = tracker w \<Longrightarrow> ledger_step w w'"
  by (simp add: ledger_step_def)







lemma resolve_folder_ledger:
  "resolve_folder cfg env coll force sd cur w =
     (case folderMappings w (doc_id sd) of
        Some m \<Rightarrow> (Inr (targetId m), w)
      | None \<Rightarrow>
          (case ledger_entry (tracker w) (doc_id sd) of
             Some v \<Rightarrow> (Inr (translatedId_of v),
                        set_mapping sd (translatedId_of v) (translatedTitle_of v) w)
           | None \<Rightarrow> search_or_create cfg env coll force sd cur w))"
  by (simp add: resolve_folder_def ledger_entry_def split: option.splits)




lemma getDocumentInfo_error:
  "getDocumentInfo env i w = (Inl e, w') \<Longrightarrow> e = OutlineApiError"
  by (auto simp: getDocumentInfo_def split: if_splits option.splits)










section \<open>Folder resolution in any order\<close>

lemma ledger_entry_proto: "ledger_entry t ''__proto__'' \<noteq> None"
proof (cases "translations' t ''__proto__''")
  case None
  then show ?thesis
    by (cases "prototype' t")
       (simp_all add: ledger_entry_def isDocumentTranslated_def getTranslatedDocument_def
          inherited_def record_field_def)
next
  case (Some r)
  then show ?thesis
    by (auto simp: ledger_entry_def isDocumentTranslated_def getTranslatedDocument_def)
qed

lemma ledger_entry_cong:
  "translations' t' k = translations' t k \<Longrightarrow> prototype' t' = prototype' t \<Longrightarrow>
     ledger_entry t' k = ledger_entry t k"
  by (simp add: ledger_entry_def isDocumentTranslated_def getTranslatedDocument_def domIff
        cong: option.case_cong)

lemma filter_create_snoc:
  "filter is_create (cs @ [c]) = filter is_create cs @ (if is_create c then [c] else [])"
  by simp

lemma translateTitle_eq:
  "\<exists>w1. translateTitle cfg env t f w = (title_at cfg env f (tick w) t, w1) \<and>
        server w1 = server w \<and> tracker w1 = tracker w \<and> folderMappings w1 = folderMappings w \<and>
        filter is_create (calls w1) = filter is_create (calls w) \<and> tick w \<le> tick w1"
  by (auto simp: translateTitle_def title_at_def Let_def split: option.splits)

lemma findFolderByName_eq:
  "\<exists>w2. findFolderByName env name coll cur w =
          (if list_throws env (tick w) then None
           else find (\<lambda>doc. doc_title doc = name \<and> doc_parentDocumentId doc = cur)
                  (filter (\<lambda>d. doc_collectionId d = coll) (server w)), w2) \<and>
        server w2 = server w \<and> tracker w2 = tracker w \<and> folderMappings w2 = folderMappings w \<and>
        filter is_create (calls w2) = filter is_create (calls w) \<and> tick w \<le> tick w2"
  by (auto simp: findFolderByName_def getDocumentsByCollection_def interact_def)

lemma content_translation_ok:
  assumes "no_failures env"
  shows "\<exists>content w3. (if nonblank (doc_text sd)
            then translateToEnglish cfg env (doc_text sd) (doc_title sd) force w2
            else (Inr [], w2)) = (Inr content, w3) \<and>
         server w3 = server w2 \<and> tracker w3 = tracker w2 \<and> folderMappings w3 = folderMappings w2 \<and>
         filter is_create (calls w3) = filter is_create (calls w2) \<and> tick w2 \<le> tick w3"
proof -
  from assms have "chat_content env (tick w2) (doc_text sd) \<noteq> None"
    by (simp add: no_failures_def)
  then show ?thesis
    by (auto simp: translateToEnglish_def Let_def)
qed

lemma createDocument_ok:
  assumes "no_failures env"
  shows "\<exists>d w4. createDocument env req w3 = (Inr d, w4) \<and>
         server w4 = server w3 @ [d] \<and> tracker w4 = tracker w3 \<and>
         folderMappings w4 = folderMappings w3 \<and>
         filter is_create (calls w4) = filter is_create (calls w3) @ [request_of d] \<and>
         tick w3 < tick w4 \<and> doc_id d = new_id env (tick w3) \<and>
         doc_title d = req_title req \<and> doc_collectionId d = req_collectionId req \<and>
         doc_parentDocumentId d = req_parentDocumentId req"
proof -
  from assms have "\<not> create_throws env (tick w3)" by (simp add: no_failures_def)
  then show ?thesis
    by (auto simp: createDocument_def Let_def interact_def request_of_def)
qed

lemma track_ok:
  assumes "no_failures env" and "doc_id od \<noteq> ''__proto__''"
  shows "\<exists>e w5. track env od td w4 = (Inr (), w5) \<and>
         server w5 = server w4 \<and> folderMappings w5 = folderMappings w4 \<and>
         translations' (tracker w5) = (translations' (tracker w4))(doc_id od \<mapsto> e) \<and>
         prototype' (tracker w5) = prototype' (tracker w4) \<and>
         translatedId e = doc_id td \<and>
         filter is_create (calls w5) = filter is_create (calls w4) \<and> tick w4 \<le> tick w5"
proof -
  from assms have "write_result env (tick w4) = Written" by (simp add: no_failures_def)
  with assms(2) show ?thesis
    by (auto simp: track_def addTranslation_def Let_def interact_def assign_def)
qed

lemma create_folder_ok:
  assumes nf: "no_failures env" and np: "doc_id sd \<noteq> ''__proto__''"
  shows "\<exists>d e w'. create_folder cfg env coll force sd name cur w2 = (Inr (Some (doc_id d)), w') \<and>
         server w' = server w2 @ [d] \<and> doc_title d = name \<and> doc_collectionId d = coll \<and>
         doc_parentDocumentId d = (if truthy_str cur then cur else None) \<and>
         (\<exists>k. tick w2 \<le> k \<and> k < tick w' \<and> doc_id d = new_id env k) \<and>
         folderMappings w' = (folderMappings w2)(doc_id sd \<mapsto>
            \<lparr>sourceId = doc_id sd, targetId = Some (doc_id d), sourceName = doc_title sd,
             targetName = Some name\<rparr>) \<and>
         translations' (tracker w') = (translations' (tracker w2))(doc_id sd \<mapsto> e) \<and>
         translatedId e = doc_id d \<and>
         prototype' (tracker w') = prototype' (tracker w2) \<and>
         filter is_create (calls w') = filter is_create (calls w2) @ [request_of d]"
proof -
  from content_translation_ok [OF nf, of sd cfg force w2] obtain content w3 where
    c: "(if nonblank (doc_text sd)
            then translateToEnglish cfg env (doc_text sd) (doc_title sd) force w2
            else (Inr [], w2)) = (Inr content, w3)"
    and f3: "server w3 = server w2" "tracker w3 = tracker w2"
      "folderMappings w3 = folderMappings w2"
      "filter is_create (calls w3) = filter is_create (calls w2)" "tick w2 \<le> tick w3"
    by blast
  let ?req = "\<lparr>req_title = name, req_text = content,
                   req_emoji = (if truthy_str (doc_emoji sd) then doc_emoji sd else None),
                   req_collectionId = coll,
                   req_parentDocumentId = (if truthy_str cur then cur else None)\<rparr>"
  from createDocument_ok [OF nf, of ?req w3] obtain d w4 where
    cd: "createDocument env ?req w3 = (Inr d, w4)"
    and f4: "server w4 = server w3 @ [d]" "tracker w4 = tracker w3"
      "folderMappings w4 = folderMappings w3"
      "filter is_create (calls w4) = filter is_create (calls w3) @ [request_of d]"
      "tick w3 < tick w4" "doc_id d = new_id env (tick w3)"
    and d: "doc_title d = name" "doc_collectionId d = coll"
      "doc_parentDocumentId d = (if truthy_str cur then cur else None)"
    by auto
  from track_ok [OF nf np, where td = d and ?w4.0 = w4] obtain e w5 where
    tr: "track env sd d w4 = (Inr (), w5)"
    and f5: "server w5 = server w4" "folderMappings w5 = folderMappings w4"
      "translations' (tracker w5) = (translations' (tracker w4))(doc_id sd \<mapsto> e)"
      "prototype' (tracker w5) = prototype' (tracker w4)"
      "translatedId e = doc_id d"
      "filter is_create (calls w5) = filter is_create (calls w4)" "tick w4 \<le> tick w5"
    by blast
  let ?w' = "set_mapping sd (Some (doc_id d)) (Some name) w5"
  have cf: "create_folder cfg env coll force sd name cur w2 = (Inr (Some (doc_id d)), ?w')"
    using c cd tr by (simp add: create_folder_def)
  have k: "tick w2 \<le> tick w3 \<and> tick w3 < tick ?w' \<and> doc_id d = new_id env (tick w3)"
    using f3 f4 f5 by (simp add: set_mapping_frame)
  have rest: "server ?w' = server w2 @ [d]"
    "folderMappings ?w' = (folderMappings w2)(doc_id sd \<mapsto>
            \<lparr>sourceId = doc_id sd, targetId = Some (doc_id d), sourceName = doc_title sd,
             targetName = Some name\<rparr>)"
    "translations' (tracker ?w') = (translations' (tracker w2))(doc_id sd \<mapsto> e)"
    "prototype' (tracker ?w') = prototype' (tracker w2)"
    "filter is_create (calls ?w') = filter is_create (calls w2) @ [request_of d]"
    using f3 f4 f5 by (simp_all add: set_mapping_def)
  from cf k rest d f5(5) show ?thesis by blast
qed

lemma dest_parent_reached:
  "dest_parent h w x =
     (if truthy_str (reached_parent h w x) then reached_parent h w x else None)"
  by (simp add: dest_parent_def reached_parent_def split: option.splits)

lemma folder_settingD:
  assumes "folder_setting cfg env h coll force N w0"
  shows "x \<in> N \<Longrightarrow> sourceHierarchy h (source_id h x) = Some x"
    and "x \<in> N \<Longrightarrow> parent (nodes h ! x) = Some p \<Longrightarrow> p \<in> N"
    and "sibling_titles_differ cfg env h force N w0"
    and "places_vacant cfg env h coll force N w0"
    and "identifiers_new env h coll N w0"
    and "folderMappings w0 = Map.empty"
  using assms unfolding folder_setting_def by blast+

lemma identifiers_newD:
  assumes "identifiers_new env h coll N w0"
  shows "new_id env n \<noteq> []"
    and "new_id env n = new_id env m \<Longrightarrow> n = m"
    and "d \<in> set (server w0) \<Longrightarrow> doc_collectionId d = coll \<Longrightarrow>
           doc_parentDocumentId d \<noteq> Some (new_id env n)"
    and "x \<in> N \<Longrightarrow> ledger_entry (tracker w0) (source_id h x) = Some v \<Longrightarrow>
           translatedId_of v \<noteq> Some []"
    and "x \<in> N \<Longrightarrow> ledger_entry (tracker w0) (source_id h x) = Some v \<Longrightarrow>
           translatedId_of v \<noteq> Some (new_id env n)"
  using assms unfolding identifiers_new_def by blast+

lemma setting_inj:
  assumes "folder_setting cfg env h coll force N w0" "x \<in> N" "y \<in> N"
    "source_id h x = source_id h y"
  shows "x = y"
  using folder_settingD(1) [OF assms(1,2)] folder_settingD(1) [OF assms(1,3)] assms(4)
  by (metis option.inject)

lemma folder_invD:
  assumes "folder_inv cfg env h coll force N w0 w xs ds"
  shows "dom (folderMappings w) \<subseteq> source_id h ` N"
    and "x \<in> N \<Longrightarrow> source_id h x \<in> dom (folderMappings w) \<Longrightarrow> parent (nodes h ! x) = Some p
           \<Longrightarrow> source_id h p \<in> dom (folderMappings w)"
    and "x \<in> N \<Longrightarrow> ledger_entry (tracker w0) (source_id h x) = Some v \<Longrightarrow>
           source_id h x \<in> dom (folderMappings w) \<Longrightarrow>
           folderMappings w (source_id h x) =
             Some \<lparr>sourceId = source_id h x, targetId = translatedId_of v,
                   sourceName = source_title h x, targetName = translatedTitle_of v\<rparr>"
    and "distinct xs"
    and "set xs = {x \<in> unrecorded h w0 N. source_id h x \<in> dom (folderMappings w)}"
    and "server w = server w0 @ ds"
    and "list_all2 (made_for cfg env h coll force w) xs ds"
    and "distinct (map doc_id ds)"
    and "d \<in> set ds \<Longrightarrow> \<exists>k<tick w. doc_id d = new_id env k"
    and "filter is_create (calls w) = filter is_create (calls w0) @ map request_of ds"
    and "prototype' (tracker w) = prototype' (tracker w0)"
    and "X \<notin> source_id h ` set xs \<Longrightarrow> translations' (tracker w) X = translations' (tracker w0) X"
  using assms unfolding folder_inv_def by blast+

lemma folder_invI:
  assumes "dom (folderMappings w) \<subseteq> source_id h ` N"
    and "\<And>x p. x \<in> N \<Longrightarrow> source_id h x \<in> dom (folderMappings w) \<Longrightarrow>
           parent (nodes h ! x) = Some p \<Longrightarrow> source_id h p \<in> dom (folderMappings w)"
    and "\<And>x v. x \<in> N \<Longrightarrow> ledger_entry (tracker w0) (source_id h x) = Some v \<Longrightarrow>
           source_id h x \<in> dom (folderMappings w) \<Longrightarrow>
           folderMappings w (source_id h x) =
             Some \<lparr>sourceId = source_id h x, targetId = translatedId_of v,
                   sourceName = source_title h x, targetName = translatedTitle_of v\<rparr>"
    and "distinct xs"
    and "set xs = {x \<in> unrecorded h w0 N. source_id h x \<in> dom (folderMappings w)}"
    and "server w = server w0 @ ds"
    and "list_all2 (made_for cfg env h coll force w) xs ds"
    and "distinct (map doc_id ds)"
    and "\<And>d. d \<in> set ds \<Longrightarrow> \<exists>k<tick w. doc_id d = new_id env k"
    and "filter is_create (calls w) = filter is_create (calls w0) @ map request_of ds"
    and "prototype' (tracker w) = prototype' (tracker w0)"
    and "\<And>X. X \<notin> source_id h ` set xs \<Longrightarrow>
           translations' (tracker w) X = translations' (tracker w0) X"
  shows "folder_inv cfg env h coll force N w0 w xs ds"
  unfolding folder_inv_def using assms by blast

lemma folder_inv_initial:
  "folderMappings w0 = Map.empty \<Longrightarrow> folder_inv cfg env h coll force N w0 w0 [] []"
  by (simp add: folder_inv_def)

text \<open>An unmapped folder reads from the ledger what it read at the start.\<close>

lemma unmapped_entry:
  assumes I: "folder_inv cfg env h coll force N w0 w xs ds"
    and un: "folderMappings w X = None"
  shows "ledger_entry (tracker w) X = ledger_entry (tracker w0) X"
proof -
  have "X \<notin> source_id h ` set xs"
  proof
    assume "X \<in> source_id h ` set xs"
    then obtain y where "y \<in> set xs" "X = source_id h y" by blast
    with folder_invD(5) [OF I] have "X \<in> dom (folderMappings w)" by simp
    with un show False by auto
  qed
  from folder_invD(12) [OF I this] folder_invD(11) [OF I] show ?thesis
    by (rule ledger_entry_cong)
qed

lemma made_forD:
  assumes "made_for cfg env h coll force w x d"
  shows "doc_collectionId d = coll"
    and "\<exists>n. doc_title d = title_at cfg env force n (source_title h x)"
    and "doc_parentDocumentId d = dest_parent h w x"
    and "folderMappings w (source_id h x) =
        Some \<lparr>sourceId = source_id h x, targetId = Some (doc_id d),
              sourceName = source_title h x, targetName = Some (doc_title d)\<rparr>"
    and "\<exists>e. translations' (tracker w) (source_id h x) = Some e \<and> translatedId e = doc_id d"
  using assms unfolding made_for_def by blast+

text \<open>The folder made for an unrecorded folder resolved so far.\<close>

lemma made_lookup:
  assumes I: "folder_inv cfg env h coll force N w0 w xs ds" and y: "y \<in> set xs"
  obtains i where "i < length xs" "xs ! i = y" "i < length ds"
    "made_for cfg env h coll force w y (ds ! i)"
proof -
  from y obtain i where i: "i < length xs" "xs ! i = y" by (auto simp: in_set_conv_nth)
  from folder_invD(7) [OF I] have len: "length xs = length ds"
    and all: "\<And>j. j < length xs \<Longrightarrow> made_for cfg env h coll force w (xs ! j) (ds ! j)"
    by (auto simp: list_all2_conv_all_nth)
  from i len all [OF i(1)] that show thesis by simp
qed

text \<open>The \<open>currentParentId\<close> reached for a folder whose parent is resolved, by
  the place of the folder.\<close>

lemma reached_place:
  assumes S: "folder_setting cfg env h coll force N w0"
    and I: "folder_inv cfg env h coll force N w0 w xs ds"
    and z: "z \<in> N"
    and pm: "\<And>p. parent (nodes h ! z) = Some p \<Longrightarrow> source_id h p \<in> dom (folderMappings w)"
  shows "case place_of h w0 z of
           Under q \<Rightarrow> reached_parent h w z = q \<and> q \<noteq> Some [] \<and> (\<forall>n. q \<noteq> Some (new_id env n))
         | Inside p \<Rightarrow> (\<exists>i<length ds. i < length xs \<and> xs ! i = p \<and>
                          reached_parent h w z = Some (doc_id (ds ! i)))"
proof (cases "parent (nodes h ! z)")
  case None
  then show ?thesis by (simp add: place_of_def reached_parent_def)
next
  case (Some p)
  from folder_settingD(2) [OF S z Some] have p: "p \<in> N" .
  from pm [OF Some] have dm: "source_id h p \<in> dom (folderMappings w)" .
  note ids = identifiers_newD [OF folder_settingD(5) [OF S]]
  show ?thesis
  proof (cases "ledger_entry (tracker w0) (source_id h p)")
    case v: (Some v)
    from folder_invD(3) [OF I p v dm]
    have "reached_parent h w z = translatedId_of v"
      using Some by (simp add: reached_parent_def)
    with ids(4) [OF p v] ids(5) [OF p v] Some v show ?thesis
      by (simp add: place_of_def)
  next
    case None
    with p dm folder_invD(5) [OF I] have "p \<in> set xs" by (simp add: unrecorded_def)
    from made_lookup [OF I this] obtain i where i: "i < length xs" "xs ! i = p" "i < length ds"
      "made_for cfg env h coll force w p (ds ! i)" .
    from made_forD(4) [OF i(4)] Some
    have "reached_parent h w z = Some (doc_id (ds ! i))"
      by (simp add: reached_parent_def)
    with i Some None show ?thesis by (auto simp: place_of_def)
  qed
qed

lemma made_id_new:
  assumes I: "folder_inv cfg env h coll force N w0 w xs ds" and i: "i < length ds"
  shows "\<exists>k<tick w. doc_id (ds ! i) = new_id env k"
  using folder_invD(9) [OF I, of "ds ! i"] i by simp

lemma reached_truthy:
  assumes S: "folder_setting cfg env h coll force N w0"
    and I: "folder_inv cfg env h coll force N w0 w xs ds"
    and z: "z \<in> N"
    and pm: "\<And>p. parent (nodes h ! z) = Some p \<Longrightarrow> source_id h p \<in> dom (folderMappings w)"
  shows "dest_parent h w z = reached_parent h w z"
proof -
  note ids = identifiers_newD [OF folder_settingD(5) [OF S]]
  have "reached_parent h w z \<noteq> Some []"
  proof (cases "place_of h w0 z")
    case (Under q)
    with reached_place [OF S I z pm] show ?thesis by simp
  next
    case (Inside p)
    with reached_place [OF S I z pm] obtain i where "i < length ds"
      "reached_parent h w z = Some (doc_id (ds ! i))" by auto
    with made_id_new [OF I this(1)] ids(1) show ?thesis by (metis option.inject)
  qed
  then show ?thesis
    by (cases "reached_parent h w z") (simp_all add: dest_parent_reached)
qed

lemma reached_same_place:
  assumes S: "folder_setting cfg env h coll force N w0"
    and I: "folder_inv cfg env h coll force N w0 w xs ds"
    and z: "z \<in> N" "z' \<in> N"
    and pm: "\<And>p. parent (nodes h ! z) = Some p \<Longrightarrow> source_id h p \<in> dom (folderMappings w)"
      "\<And>p. parent (nodes h ! z') = Some p \<Longrightarrow> source_id h p \<in> dom (folderMappings w)"
    and eq: "reached_parent h w z = reached_parent h w z'"
  shows "place_of h w0 z = place_of h w0 z'"
proof -
  note R = reached_place [OF S I z(1) pm(1)] and R' = reached_place [OF S I z(2) pm(2)]
  show ?thesis
  proof (cases "place_of h w0 z")
    case U: (Under q)
    show ?thesis
    proof (cases "place_of h w0 z'")
      case (Under q')
      with U R R' eq show ?thesis by simp
    next
      case (Inside p')
      with R' obtain i where i: "i < length ds" "reached_parent h w z' = Some (doc_id (ds ! i))"
        by auto
      from made_id_new [OF I i(1)] obtain k where k: "doc_id (ds ! i) = new_id env k" by blast
      from U R have "reached_parent h w z = q" "\<forall>n. q \<noteq> Some (new_id env n)" by simp_all
      with eq i(2) k have False by metis
      then show ?thesis ..
    qed
  next
    case In: (Inside p)
    with R obtain i where i: "i < length ds" "i < length xs" "xs ! i = p"
      "reached_parent h w z = Some (doc_id (ds ! i))" by auto
    show ?thesis
    proof (cases "place_of h w0 z'")
      case (Under q')
      from made_id_new [OF I i(1)] obtain k where k: "doc_id (ds ! i) = new_id env k" by blast
      from Under R' have "reached_parent h w z' = q'" "\<forall>n. q' \<noteq> Some (new_id env n)"
        by simp_all
      with eq i(4) k have False by metis
      then show ?thesis ..
    next
      case (Inside p')
      with R' obtain j where j: "j < length ds" "j < length xs" "xs ! j = p'"
        "reached_parent h w z' = Some (doc_id (ds ! j))" by auto
      from eq i(4) j(4) have "doc_id (ds ! i) = doc_id (ds ! j)" by simp
      with nth_eq_iff_index_eq [OF folder_invD(8) [OF I], of i j] i(1) j(1) have "i = j"
        by simp
      with i(3) j(3) In Inside show ?thesis by simp
    qed
  qed
qed

lemma made_for_keep:
  assumes m: "made_for cfg env h coll force w y d"
    and fm: "folderMappings w' = (folderMappings w)(X \<mapsto> mx)"
    and un: "folderMappings w X = None"
    and par: "\<And>p. parent (nodes h ! y) = Some p \<Longrightarrow> source_id h p \<in> dom (folderMappings w)"
    and tr: "translations' (tracker w') (source_id h y) = translations' (tracker w) (source_id h y)"
  shows "made_for cfg env h coll force w' y d"
proof -
  note M = made_forD [OF m]
  from M(4) un have ne: "source_id h y \<noteq> X" by auto
  have dp: "dest_parent h w' y = dest_parent h w y"
  proof (cases "parent (nodes h ! y)")
    case None
    then show ?thesis by (simp add: dest_parent_def)
  next
    case (Some q)
    from par [OF Some] un have "source_id h q \<noteq> X" by auto
    with Some fm show ?thesis by (simp add: dest_parent_def)
  qed
  from M ne fm dp tr show ?thesis unfolding made_for_def by simp
qed

lemma mapped_unrecorded:
  assumes I: "folder_inv cfg env h coll force N w0 w xs ds" and y: "y \<in> set xs"
  shows "y \<in> N" "ledger_entry (tracker w0) (source_id h y) = None"
    "source_id h y \<in> dom (folderMappings w)"
  using folder_invD(5) [OF I] y by (auto simp: unrecorded_def)

text \<open>The invariant after the folder of \<open>x\<close> was taken from the ledger.\<close>

lemma folder_inv_ledger:
  assumes S: "folder_setting cfg env h coll force N w0"
    and I: "folder_inv cfg env h coll force N w0 w xs ds"
    and x: "x \<in> N"
    and pre: "\<And>p. parent (nodes h ! x) = Some p \<Longrightarrow> source_id h p \<in> dom (folderMappings w)"
    and un: "folderMappings w (source_id h x) = None"
    and v: "ledger_entry (tracker w) (source_id h x) = Some v"
    and fm: "folderMappings w' = (folderMappings w)(source_id h x \<mapsto>
               \<lparr>sourceId = source_id h x, targetId = translatedId_of v,
                sourceName = source_title h x, targetName = translatedTitle_of v\<rparr>)"
    and same: "server w' = server w" "tracker w' = tracker w" "calls w' = calls w"
      "tick w' = tick w"
  shows "folder_inv cfg env h coll force N w0 w' xs ds"
proof (rule folder_invI)
  let ?X = "source_id h x"
  note J = folder_invD [OF I]
  from unmapped_entry [OF I un] v have v0: "ledger_entry (tracker w0) ?X = Some v" by simp
  show "dom (folderMappings w') \<subseteq> source_id h ` N" using J(1) x fm by auto
  show "source_id h p \<in> dom (folderMappings w')"
    if y: "y \<in> N" and r: "source_id h y \<in> dom (folderMappings w')"
      and p: "parent (nodes h ! y) = Some p" for y p
  proof (cases "source_id h y = ?X")
    case True
    with setting_inj [OF S y x] have "y = x" by simp
    with pre p fm show ?thesis by auto
  next
    case False
    with r fm have "source_id h y \<in> dom (folderMappings w)" by auto
    from J(2) [OF y this p] fm show ?thesis by auto
  qed
  show "folderMappings w' (source_id h y) =
             Some \<lparr>sourceId = source_id h y, targetId = translatedId_of u,
                   sourceName = source_title h y, targetName = translatedTitle_of u\<rparr>"
    if y: "y \<in> N" and u: "ledger_entry (tracker w0) (source_id h y) = Some u"
      and r: "source_id h y \<in> dom (folderMappings w')" for y u
  proof (cases "source_id h y = ?X")
    case True
    with setting_inj [OF S y x] have "y = x" by simp
    with u v0 fm show ?thesis by simp
  next
    case False
    with r fm have "source_id h y \<in> dom (folderMappings w)" by auto
    from J(3) [OF y u this] False fm show ?thesis by simp
  qed
  show "distinct xs" by (rule J(4))
  show "set xs = {y \<in> unrecorded h w0 N. source_id h y \<in> dom (folderMappings w')}"
  proof -
    have "source_id h y \<in> dom (folderMappings w') \<longleftrightarrow> source_id h y \<in> dom (folderMappings w)"
      if "y \<in> unrecorded h w0 N" for y
    proof -
      from that v0 have "source_id h y \<noteq> ?X" by (auto simp: unrecorded_def)
      with fm show ?thesis by (simp add: domIff)
    qed
    with J(5) show ?thesis by blast
  qed
  show "server w' = server w0 @ ds" using J(6) same by simp
  show "list_all2 (made_for cfg env h coll force w') xs ds"
  proof (rule list.rel_mono_strong [OF J(7)])
    fix y d assume y: "y \<in> set xs" and m: "made_for cfg env h coll force w y d"
    show "made_for cfg env h coll force w' y d"
    proof (rule made_for_keep [OF m fm un])
      show "translations' (tracker w') (source_id h y) = translations' (tracker w) (source_id h y)"
        using same by simp
      fix p assume p: "parent (nodes h ! y) = Some p"
      from J(2) [OF mapped_unrecorded(1,3) [OF I y] p]
      show "source_id h p \<in> dom (folderMappings w)" .
    qed
  qed
  show "distinct (map doc_id ds)" by (rule J(8))
  show "\<exists>k<tick w'. doc_id d = new_id env k" if "d \<in> set ds" for d
    using J(9) [OF that] same by simp
  show "filter is_create (calls w') = filter is_create (calls w0) @ map request_of ds"
    using J(10) same by simp
  show "prototype' (tracker w') = prototype' (tracker w0)" using J(11) same by simp
  show "translations' (tracker w') X = translations' (tracker w0) X"
    if "X \<notin> source_id h ` set xs" for X
    using J(12) [OF that] same by simp
qed

text \<open>No document of the destination collection matches the search for an
  unrecorded folder that is not yet resolved.\<close>

lemma search_finds_nothing:
  assumes S: "folder_setting cfg env h coll force N w0"
    and I: "folder_inv cfg env h coll force N w0 w xs ds"
    and x: "x \<in> N"
    and pre: "\<And>p. parent (nodes h ! x) = Some p \<Longrightarrow> source_id h p \<in> dom (folderMappings w)"
    and un: "folderMappings w (source_id h x) = None"
    and t: "ledger_entry (tracker w) (source_id h x) = None"
    and d: "d \<in> set (server w)" "doc_collectionId d = coll"
      "doc_title d = title_at cfg env force n (source_title h x)"
  shows "doc_parentDocumentId d \<noteq> reached_parent h w x"
proof
  assume eq: "doc_parentDocumentId d = reached_parent h w x"
  note J = folder_invD [OF I]
  note ids = identifiers_newD [OF folder_settingD(5) [OF S]]
  from unmapped_entry [OF I un] t have t0: "ledger_entry (tracker w0) (source_id h x) = None"
    by simp
  with x have xu: "x \<in> unrecorded h w0 N" by (simp add: unrecorded_def)
  note R = reached_place [OF S I x pre]
  from d(1) J(6) have "d \<in> set (server w0) \<or> d \<in> set ds" by auto
  then show False
  proof
    assume d0: "d \<in> set (server w0)"
    show False
    proof (cases "place_of h w0 x")
      case (Under q)
      with R eq have "place_of h w0 x = Under (doc_parentDocumentId d)" by simp
      with folder_settingD(4) [OF S] xu d0 d(2) d(3) show False
        unfolding places_vacant_def by blast
    next
      case (Inside p)
      with R obtain i where i: "i < length ds" "reached_parent h w x = Some (doc_id (ds ! i))"
        by auto
      from made_id_new [OF I i(1)] obtain k where "doc_id (ds ! i) = new_id env k" by blast
      with i(2) eq ids(3) [OF d0 d(2), of k] show False by simp
    qed
  next
    assume "d \<in> set ds"
    then obtain i where i: "i < length ds" "ds ! i = d" by (auto simp: in_set_conv_nth)
    from J(7) have len: "length xs = length ds"
      and all: "\<And>j. j < length xs \<Longrightarrow> made_for cfg env h coll force w (xs ! j) (ds ! j)"
      by (auto simp: list_all2_conv_all_nth)
    let ?y = "xs ! i"
    from i len have yx: "?y \<in> set xs" by simp
    note Y = mapped_unrecorded [OF I yx]
    from all [of i] i len have m: "made_for cfg env h coll force w ?y d" by simp
    from Y(3) un have ne: "?y \<noteq> x" by auto
    have py: "\<And>p. parent (nodes h ! ?y) = Some p \<Longrightarrow> source_id h p \<in> dom (folderMappings w)"
      by (rule J(2) [OF Y(1) Y(3)])
    from made_forD(3) [OF m] reached_truthy [OF S I Y(1) py] eq
    have "reached_parent h w ?y = reached_parent h w x" by simp
    from reached_same_place [OF S I Y(1) x py pre this]
    have pl: "place_of h w0 ?y = place_of h w0 x" .
    from Y(1) Y(2) have yu: "?y \<in> unrecorded h w0 N" by (simp add: unrecorded_def)
    from made_forD(2) [OF m] obtain n' where
      "doc_title d = title_at cfg env force n' (source_title h ?y)" by blast
    with folder_settingD(3) [OF S] yu xu ne pl d(3) show False
      unfolding sibling_titles_differ_def by metis
  qed
qed

text \<open>The invariant after the folder of \<open>x\<close> was created as the document \<open>d\<close>.\<close>

lemma folder_inv_create:
  assumes S: "folder_setting cfg env h coll force N w0"
    and I: "folder_inv cfg env h coll force N w0 w xs ds"
    and x: "x \<in> N"
    and pre: "\<And>p. parent (nodes h ! x) = Some p \<Longrightarrow> source_id h p \<in> dom (folderMappings w)"
    and un: "folderMappings w (source_id h x) = None"
    and t: "ledger_entry (tracker w) (source_id h x) = None"
    and fm: "folderMappings w' = (folderMappings w)(source_id h x \<mapsto>
               \<lparr>sourceId = source_id h x, targetId = Some (doc_id d),
                sourceName = source_title h x, targetName = Some (doc_title d)\<rparr>)"
    and srv: "server w' = server w @ [d]"
    and d: "doc_title d = title_at cfg env force n (source_title h x)"
      "doc_collectionId d = coll"
      "doc_parentDocumentId d =
         (if truthy_str (reached_parent h w x) then reached_parent h w x else None)"
    and k: "tick w \<le> k" "k < tick w'" "doc_id d = new_id env k"
    and tr: "translations' (tracker w') = (translations' (tracker w))(source_id h x \<mapsto> e)"
      "translatedId e = doc_id d" "prototype' (tracker w') = prototype' (tracker w)"
    and cl: "filter is_create (calls w') = filter is_create (calls w) @ [request_of d]"
  shows "folder_inv cfg env h coll force N w0 w' (xs @ [x]) (ds @ [d])"
proof (rule folder_invI)
  let ?X = "source_id h x"
  note J = folder_invD [OF I]
  note ids = identifiers_newD [OF folder_settingD(5) [OF S]]
  from unmapped_entry [OF I un] t have t0: "ledger_entry (tracker w0) ?X = None" by simp
  with x have xu: "x \<in> unrecorded h w0 N" by (simp add: unrecorded_def)
  from un J(5) have xn: "x \<notin> set xs" by auto
  have tw: "tick w \<le> tick w'" using k by simp
  show "dom (folderMappings w') \<subseteq> source_id h ` N" using J(1) x fm by auto
  show "source_id h p \<in> dom (folderMappings w')"
    if y: "y \<in> N" and r: "source_id h y \<in> dom (folderMappings w')"
      and p: "parent (nodes h ! y) = Some p" for y p
  proof (cases "source_id h y = ?X")
    case True
    with setting_inj [OF S y x] have "y = x" by simp
    with pre p fm show ?thesis by auto
  next
    case False
    with r fm have "source_id h y \<in> dom (folderMappings w)" by auto
    from J(2) [OF y this p] fm show ?thesis by auto
  qed
  show "folderMappings w' (source_id h y) =
             Some \<lparr>sourceId = source_id h y, targetId = translatedId_of u,
                   sourceName = source_title h y, targetName = translatedTitle_of u\<rparr>"
    if y: "y \<in> N" and u: "ledger_entry (tracker w0) (source_id h y) = Some u"
      and r: "source_id h y \<in> dom (folderMappings w')" for y u
  proof -
    from u t0 have ne: "source_id h y \<noteq> ?X" by auto
    with r fm have "source_id h y \<in> dom (folderMappings w)" by auto
    from J(3) [OF y u this] ne fm show ?thesis by simp
  qed
  show "distinct (xs @ [x])" using J(4) xn by simp
  show "set (xs @ [x]) = {y \<in> unrecorded h w0 N. source_id h y \<in> dom (folderMappings w')}"
  proof -
    have eq: "source_id h y \<in> dom (folderMappings w') \<longleftrightarrow>
        source_id h y \<in> dom (folderMappings w) \<or> y = x"
      if "y \<in> unrecorded h w0 N" for y
    proof (cases "source_id h y = ?X")
      case True
      from that have "y \<in> N" by (simp add: unrecorded_def)
      with setting_inj [OF S this x] True have "y = x" by simp
      with fm show ?thesis by simp
    next
      case False
      then have "y \<noteq> x" by auto
      with False fm show ?thesis by (simp add: domIff)
    qed
    show ?thesis
    proof (intro set_eqI iffI)
      fix y assume "y \<in> set (xs @ [x])"
      then have "y \<in> set xs \<or> y = x" by auto
      then show "y \<in> {y \<in> unrecorded h w0 N. source_id h y \<in> dom (folderMappings w')}"
      proof
        assume "y \<in> set xs"
        with J(5) have yu: "y \<in> unrecorded h w0 N"
          and "source_id h y \<in> dom (folderMappings w)" by simp_all
        with eq [OF yu] show ?thesis by simp
      next
        assume "y = x"
        with xu eq [OF xu] show ?thesis by simp
      qed
    next
      fix y assume "y \<in> {y \<in> unrecorded h w0 N. source_id h y \<in> dom (folderMappings w')}"
      then have yu: "y \<in> unrecorded h w0 N"
        and "source_id h y \<in> dom (folderMappings w')" by simp_all
      with eq [OF yu] have "source_id h y \<in> dom (folderMappings w) \<or> y = x" by simp
      with yu J(5) show "y \<in> set (xs @ [x])" by auto
    qed
  qed
  show "server w' = server w0 @ ds @ [d]" using J(6) srv by simp
  show "list_all2 (made_for cfg env h coll force w') (xs @ [x]) (ds @ [d])"
  proof (rule list_all2_appendI)
    show "list_all2 (made_for cfg env h coll force w') xs ds"
    proof (rule list.rel_mono_strong [OF J(7)])
      fix y d' assume y: "y \<in> set xs" and m: "made_for cfg env h coll force w y d'"
      show "made_for cfg env h coll force w' y d'"
      proof (rule made_for_keep [OF m fm un])
        from mapped_unrecorded(3) [OF I y] un have "source_id h y \<noteq> ?X" by auto
        with tr(1) show "translations' (tracker w') (source_id h y)
            = translations' (tracker w) (source_id h y)"
          by simp
        fix p assume p: "parent (nodes h ! y) = Some p"
        from J(2) [OF mapped_unrecorded(1,3) [OF I y] p]
        show "source_id h p \<in> dom (folderMappings w)" .
      qed
    qed
    have rp: "reached_parent h w' x = reached_parent h w x"
    proof (cases "parent (nodes h ! x)")
      case None
      then show ?thesis by (simp add: reached_parent_def)
    next
      case (Some p)
      from pre [OF Some] un have "source_id h p \<noteq> ?X" by auto
      with Some fm show ?thesis by (simp add: reached_parent_def)
    qed
    have "made_for cfg env h coll force w' x d"
      unfolding made_for_def
      using d fm tr rp by (auto simp: dest_parent_reached)
    then show "list_all2 (made_for cfg env h coll force w') [x] [d]" by simp
  qed
  show "distinct (map doc_id (ds @ [d]))"
  proof -
    have "doc_id d \<notin> doc_id ` set ds"
    proof
      assume "doc_id d \<in> doc_id ` set ds"
      then obtain d' where d': "d' \<in> set ds" "doc_id d' = doc_id d" by auto
      from J(9) [OF d'(1)] obtain k' where "k' < tick w" "doc_id d' = new_id env k'" by blast
      with d'(2) k(3) ids(2) [of k' k] k(1) show False by simp
    qed
    with J(8) show ?thesis by simp
  qed
  show "\<exists>j<tick w'. doc_id d' = new_id env j" if "d' \<in> set (ds @ [d])" for d'
  proof (cases "d' = d")
    case True
    with k show ?thesis by blast
  next
    case False
    with that have "d' \<in> set ds" by simp
    from J(9) [OF this] tw show ?thesis by (meson less_le_trans)
  qed
  show "filter is_create (calls w')
      = filter is_create (calls w0) @ map request_of (ds @ [d])"
    using J(10) cl by simp
  show "prototype' (tracker w') = prototype' (tracker w0)" using J(11) tr(3) by simp
  show "translations' (tracker w') X = translations' (tracker w0) X"
    if "X \<notin> source_id h ` set (xs @ [x])" for X
  proof -
    from that have "X \<noteq> ?X" "X \<notin> source_id h ` set xs" by auto
    with J(12) [of X] tr(1) show ?thesis by simp
  qed
qed

text \<open>One iteration of the folder loop keeps the invariant and resolves its folder.\<close>

lemma resolve_folder_step:
  assumes nf: "no_failures env"
    and S: "folder_setting cfg env h coll force N w0"
    and I: "folder_inv cfg env h coll force N w0 w cs ds"
    and x: "x \<in> N"
    and cur: "cur = reached_parent h w x"
    and pm: "\<And>p. parent (nodes h ! x) = Some p \<Longrightarrow> source_id h p \<in> dom (folderMappings w)"
  shows "\<exists>m w' cs' ds'. resolve_folder cfg env coll force (document (nodes h ! x)) cur w
                   = (Inr (targetId m), w') \<and>
                 folder_inv cfg env h coll force N w0 w' cs' ds' \<and>
                 folderMappings w' (source_id h x) = Some m \<and>
                 (\<forall>Y\<in>dom (folderMappings w). folderMappings w' Y = folderMappings w Y)"
proof -
  let ?sd = "document (nodes h ! x)"
  let ?X = "source_id h x"
  have X: "doc_id ?sd = ?X" by (simp add: source_id_def)
  have T: "doc_title ?sd = source_title h x" by (simp add: source_title_def)
  show ?thesis
  proof (cases "folderMappings w ?X")
    case (Some m)
    then have "resolve_folder cfg env coll force ?sd cur w = (Inr (targetId m), w)"
      by (simp add: resolve_folder_ledger X)
    with I Some show ?thesis by blast
  next
    case None
    note un = this
    show ?thesis
    proof (cases "ledger_entry (tracker w) ?X")
      case (Some v)
      let ?m = "\<lparr>sourceId = ?X, targetId = translatedId_of v, sourceName = source_title h x,
                  targetName = translatedTitle_of v\<rparr>"
      let ?w' = "set_mapping ?sd (translatedId_of v) (translatedTitle_of v) w"
      have r: "resolve_folder cfg env coll force ?sd cur w = (Inr (targetId ?m), ?w')"
        using un Some by (simp add: resolve_folder_ledger X)
      have fm: "folderMappings ?w' = (folderMappings w)(?X \<mapsto> ?m)"
        by (simp add: set_mapping_def X T)
      have "folder_inv cfg env h coll force N w0 ?w' cs ds"
        by (rule folder_inv_ledger [OF S I x pm un Some fm]) (simp_all add: set_mapping_frame)
      moreover have "folderMappings ?w' ?X = Some ?m" using fm by simp
      moreover have "\<forall>Y\<in>dom (folderMappings w). folderMappings ?w' Y = folderMappings w Y"
        using fm un by (auto simp: domIff)
      ultimately show ?thesis using r by blast
    next
      case None
      note t = this
      from ledger_entry_proto [of "tracker w"] t have np: "doc_id ?sd \<noteq> ''__proto__''"
        unfolding X by auto
      from translateTitle_eq [of cfg env "doc_title ?sd" force w] obtain w1 where
        tt: "translateTitle cfg env (doc_title ?sd) force w
               = (title_at cfg env force (tick w) (doc_title ?sd), w1)"
        and f1: "server w1 = server w" "tracker w1 = tracker w"
          "folderMappings w1 = folderMappings w"
          "filter is_create (calls w1) = filter is_create (calls w)" "tick w \<le> tick w1"
        by blast
      let ?name = "title_at cfg env force (tick w) (source_title h x)"
      from findFolderByName_eq [of env ?name coll cur w1] obtain w2 where
        ff: "findFolderByName env ?name coll cur w1 =
          (if list_throws env (tick w1) then None
           else find (\<lambda>doc. doc_title doc = ?name \<and> doc_parentDocumentId doc = cur)
                  (filter (\<lambda>d. doc_collectionId d = coll) (server w1)), w2)"
        and f2: "server w2 = server w1" "tracker w2 = tracker w1"
          "folderMappings w2 = folderMappings w1"
          "filter is_create (calls w2) = filter is_create (calls w1)" "tick w1 \<le> tick w2"
        by blast
      have nomatch: "find (\<lambda>doc. doc_title doc = ?name \<and> doc_parentDocumentId doc = cur)
                  (filter (\<lambda>d. doc_collectionId d = coll) (server w1)) = None"
      proof -
        have "\<not> (doc_title d = ?name \<and> doc_parentDocumentId d = cur)"
          if a: "d \<in> set (server w)" "doc_collectionId d = coll" for d
          using search_finds_nothing [OF S I x pm un t a, of "tick w"] cur by blast
        then show ?thesis using f1 by (auto simp: find_None_iff)
      qed
      from create_folder_ok [OF nf np, of cfg coll force ?name cur w2]
      obtain d e w' where
        cf: "create_folder cfg env coll force ?sd ?name cur w2 = (Inr (Some (doc_id d)), w')"
        and c: "server w' = server w2 @ [d]" "doc_title d = ?name" "doc_collectionId d = coll"
          "doc_parentDocumentId d = (if truthy_str cur then cur else None)"
          "\<exists>k. tick w2 \<le> k \<and> k < tick w' \<and> doc_id d = new_id env k"
          "folderMappings w' = (folderMappings w2)(doc_id ?sd \<mapsto>
            \<lparr>sourceId = doc_id ?sd, targetId = Some (doc_id d), sourceName = doc_title ?sd,
             targetName = Some ?name\<rparr>)"
          "translations' (tracker w') = (translations' (tracker w2))(doc_id ?sd \<mapsto> e)"
          "translatedId e = doc_id d"
          "prototype' (tracker w') = prototype' (tracker w2)"
          "filter is_create (calls w') = filter is_create (calls w2) @ [request_of d]"
        by blast
      from c(5) obtain k where k: "tick w2 \<le> k" "k < tick w'" "doc_id d = new_id env k"
        by blast
      let ?m = "\<lparr>sourceId = ?X, targetId = Some (doc_id d), sourceName = source_title h x,
             targetName = Some (doc_title d)\<rparr>"
      have r: "resolve_folder cfg env coll force ?sd cur w = (Inr (targetId ?m), w')"
        using un t tt ff nomatch cf
        by (simp add: resolve_folder_ledger search_or_create_def X T)
      have fm: "folderMappings w' = (folderMappings w)(?X \<mapsto> ?m)"
        using c(6) c(2) f1 f2 by (simp add: X T)
      have "folder_inv cfg env h coll force N w0 w' (cs @ [x]) (ds @ [d])"
      proof (rule folder_inv_create [OF S I x pm un t fm])
        show "server w' = server w @ [d]" using c(1) f1 f2 by simp
        show "doc_title d = title_at cfg env force (tick w) (source_title h x)" by (rule c(2))
        show "doc_collectionId d = coll" by (rule c(3))
        show "doc_parentDocumentId d =
            (if truthy_str (reached_parent h w x) then reached_parent h w x else None)"
          using c(4) cur by simp
        show "tick w \<le> k" using k(1) f1(5) f2(5) by simp
        show "k < tick w'" by (rule k(2))
        show "doc_id d = new_id env k" by (rule k(3))
        show "translations' (tracker w') = (translations' (tracker w))(?X \<mapsto> e)"
          using c(7) f1 f2 by (simp add: X)
        show "translatedId e = doc_id d" by (rule c(8))
        show "prototype' (tracker w') = prototype' (tracker w)" using c(9) f1 f2 by simp
        show "filter is_create (calls w') = filter is_create (calls w) @ [request_of d]"
          using c(10) f1 f2 by simp
      qed
      moreover have "folderMappings w' ?X = Some ?m" using fm by simp
      moreover have "\<forall>Y\<in>dom (folderMappings w). folderMappings w' Y = folderMappings w Y"
        using fm un by (auto simp: domIff)
      ultimately show ?thesis using r by blast
    qed
  qed
qed

lemma folder_loop_inv:
  assumes nf: "no_failures env"
    and S: "folder_setting cfg env h coll force N w0"
  shows "folder_inv cfg env h coll force N w0 w cs ds \<Longrightarrow> set fp \<subseteq> N \<Longrightarrow>
     (\<And>k. Suc k < length fp \<Longrightarrow> parent (nodes h ! (fp ! Suc k)) = Some (fp ! k)) \<Longrightarrow>
     (fp \<noteq> [] \<Longrightarrow> cur = reached_parent h w (hd fp) \<and>
        (\<forall>p. parent (nodes h ! hd fp) = Some p \<longrightarrow> source_id h p \<in> dom (folderMappings w))) \<Longrightarrow>
     \<exists>r w' cs' ds'. folder_loop cfg env h coll force fp cur w = (Inr r, w') \<and>
            folder_inv cfg env h coll force N w0 w' cs' ds' \<and>
            (\<forall>Y\<in>dom (folderMappings w). folderMappings w' Y = folderMappings w Y) \<and>
            (\<forall>x\<in>set fp. source_id h x \<in> dom (folderMappings w'))"
proof (induction fp arbitrary: cur w cs ds)
  case Nil
  then show ?case by auto
next
  case (Cons x fp)
  from Cons.prems(2) have x: "x \<in> N" and fp: "set fp \<subseteq> N" by simp_all
  from Cons.prems(4) have cur: "cur = reached_parent h w x"
    and pm: "\<And>p. parent (nodes h ! x) = Some p \<Longrightarrow> source_id h p \<in> dom (folderMappings w)"
    by simp_all
  from resolve_folder_step [OF nf S Cons.prems(1) x cur pm] obtain m w1 cs1 ds1 where
    r: "resolve_folder cfg env coll force (document (nodes h ! x)) cur w
          = (Inr (targetId m), w1)"
    and I1: "folder_inv cfg env h coll force N w0 w1 cs1 ds1"
    and mx: "folderMappings w1 (source_id h x) = Some m"
    and mono: "\<forall>Y\<in>dom (folderMappings w). folderMappings w1 Y = folderMappings w Y"
    by blast
  have links: "\<And>k. Suc k < length fp \<Longrightarrow> parent (nodes h ! (fp ! Suc k)) = Some (fp ! k)"
    using Cons.prems(3) [of "Suc k" for k] by simp
  have pre1: "targetId m = reached_parent h w1 (hd fp) \<and>
        (\<forall>p. parent (nodes h ! hd fp) = Some p \<longrightarrow> source_id h p \<in> dom (folderMappings w1))"
    if "fp \<noteq> []"
  proof -
    from that have "hd fp = (x # fp) ! Suc 0" by (simp add: hd_conv_nth)
    moreover from that have "parent (nodes h ! ((x # fp) ! Suc 0)) = Some ((x # fp) ! 0)"
      by (intro Cons.prems(3)) simp
    ultimately have "parent (nodes h ! hd fp) = Some x" by simp
    with mx show ?thesis by (auto simp: reached_parent_def)
  qed
  from Cons.IH [OF I1 fp links pre1] obtain r' w' cs' ds' where
    l: "folder_loop cfg env h coll force fp (targetId m) w1 = (Inr r', w')"
    and I': "folder_inv cfg env h coll force N w0 w' cs' ds'"
    and mono': "\<forall>Y\<in>dom (folderMappings w1). folderMappings w' Y = folderMappings w1 Y"
    and res: "\<forall>y\<in>set fp. source_id h y \<in> dom (folderMappings w')"
    by blast
  have 1: "folder_loop cfg env h coll force (x # fp) cur w = (Inr r', w')"
    using r l by simp
  have 2: "\<forall>Y\<in>dom (folderMappings w). folderMappings w' Y = folderMappings w Y"
  proof
    fix Y assume Y: "Y \<in> dom (folderMappings w)"
    with mono have e: "folderMappings w1 Y = folderMappings w Y" by blast
    with Y have "Y \<in> dom (folderMappings w1)" by (auto simp: domIff)
    with mono' e show "folderMappings w' Y = folderMappings w Y" by simp
  qed
  have 3: "\<forall>y\<in>set (x # fp). source_id h y \<in> dom (folderMappings w')"
  proof -
    from mx have "source_id h x \<in> dom (folderMappings w1)" by auto
    with mono' mx have "source_id h x \<in> dom (folderMappings w')" by (auto simp: domIff)
    with res show ?thesis by simp
  qed
  from 1 I' 2 3 show ?case by blast
qed

lemma ensureFolderStructure_inv:
  assumes nf: "no_failures env"
    and S: "folder_setting cfg env h coll force N w0"
    and I: "folder_inv cfg env h coll force N w0 w cs ds"
    and p: "getDocumentPath h l = Some path" and sub: "set (butlast path) \<subseteq> N"
  shows "\<exists>r w' cs' ds'. ensureFolderStructure cfg env h l coll force w = Some (r, w') \<and>
            folder_inv cfg env h coll force N w0 w' cs' ds' \<and>
            (\<forall>Y\<in>dom (folderMappings w). folderMappings w' Y = folderMappings w Y) \<and>
            (\<forall>x\<in>set (butlast path). source_id h x \<in> dom (folderMappings w'))"
proof (cases "butlast path = []")
  case True
  with p I show ?thesis by (auto simp: ensureFolderStructure_def)
next
  case False
  then have ne: "path \<noteq> []" by auto
  from getDocumentPath_chain [OF p] have c: "chain (nodes h) (sourceHierarchy h l) path" .
  from chain_props [OF c] ne have root: "parent (nodes h ! hd path) = None"
    and links: "\<And>k. Suc k < length path \<Longrightarrow>
        parent (nodes h ! (path ! Suc k)) = Some (path ! k)"
    by (cases "sourceHierarchy h l"; auto)+
  have hd: "hd (butlast path) = hd path" using False by (cases path) auto
  have l1: "\<And>k. Suc k < length (butlast path) \<Longrightarrow>
      parent (nodes h ! (butlast path ! Suc k)) = Some (butlast path ! k)"
    using links by (simp add: nth_butlast)
  have pre: "None = reached_parent h w (hd (butlast path)) \<and>
        (\<forall>p. parent (nodes h ! hd (butlast path)) = Some p \<longrightarrow>
             source_id h p \<in> dom (folderMappings w))"
    using root hd by (simp add: reached_parent_def)
  from folder_loop_inv [OF nf S I sub l1 pre] obtain r w' cs' ds' where
    "folder_loop cfg env h coll force (butlast path) None w = (Inr r, w')"
    "folder_inv cfg env h coll force N w0 w' cs' ds'"
    "\<forall>Y\<in>dom (folderMappings w). folderMappings w' Y = folderMappings w Y"
    "\<forall>x\<in>set (butlast path). source_id h x \<in> dom (folderMappings w')"
    by blast
  with False p show ?thesis
    by (intro exI [of _ "Inr r"] exI [of _ w'] exI [of _ cs'] exI [of _ ds'])
       (simp add: ensureFolderStructure_def)
qed

lemma folder_nodes_Cons:
  "folder_nodes h (l # ls) =
     (case getDocumentPath h l of None \<Rightarrow> {} | Some p \<Rightarrow> set (butlast p)) \<union> folder_nodes h ls"
  by (simp add: folder_nodes_def)

lemma ensure_all_inv:
  assumes nf: "no_failures env"
    and S: "folder_setting cfg env h coll force N w0"
    and paths: "\<And>l. \<exists>path. getDocumentPath h l = Some path"
  shows "folder_inv cfg env h coll force N w0 w cs ds \<Longrightarrow> folder_nodes h ls \<subseteq> N \<Longrightarrow>
     \<exists>w' cs' ds'. ensure_all cfg env h coll force ls w = Some w' \<and>
          folder_inv cfg env h coll force N w0 w' cs' ds' \<and>
          (\<forall>Y\<in>dom (folderMappings w). folderMappings w' Y = folderMappings w Y) \<and>
          (\<forall>x\<in>folder_nodes h ls. source_id h x \<in> dom (folderMappings w'))"
proof (induction ls arbitrary: w cs ds)
  case Nil
  then show ?case by (auto simp: folder_nodes_def)
next
  case (Cons l ls)
  from paths [of l] obtain path where p: "getDocumentPath h l = Some path" by blast
  with Cons.prems(2) have sub: "set (butlast path) \<subseteq> N" and rest: "folder_nodes h ls \<subseteq> N"
    by (simp_all add: folder_nodes_Cons)
  from ensureFolderStructure_inv [OF nf S Cons.prems(1) p sub] obtain r w1 cs1 ds1 where
    e: "ensureFolderStructure cfg env h l coll force w = Some (r, w1)"
    and I1: "folder_inv cfg env h coll force N w0 w1 cs1 ds1"
    and mono: "\<forall>Y\<in>dom (folderMappings w). folderMappings w1 Y = folderMappings w Y"
    and res: "\<forall>x\<in>set (butlast path). source_id h x \<in> dom (folderMappings w1)"
    by blast
  from Cons.IH [OF I1 rest] obtain w' cs' ds' where
    a: "ensure_all cfg env h coll force ls w1 = Some w'"
    and I': "folder_inv cfg env h coll force N w0 w' cs' ds'"
    and mono': "\<forall>Y\<in>dom (folderMappings w1). folderMappings w' Y = folderMappings w1 Y"
    and res': "\<forall>x\<in>folder_nodes h ls. source_id h x \<in> dom (folderMappings w')"
    by blast
  have 1: "ensure_all cfg env h coll force (l # ls) w = Some w'" using e a by simp
  have 2: "\<forall>Y\<in>dom (folderMappings w). folderMappings w' Y = folderMappings w Y"
  proof
    fix Y assume Y: "Y \<in> dom (folderMappings w)"
    with mono have e: "folderMappings w1 Y = folderMappings w Y" by blast
    with Y have "Y \<in> dom (folderMappings w1)" by (auto simp: domIff)
    with mono' e show "folderMappings w' Y = folderMappings w Y" by simp
  qed
  have 3: "\<forall>x\<in>folder_nodes h (l # ls). source_id h x \<in> dom (folderMappings w')"
  proof
    fix x assume "x \<in> folder_nodes h (l # ls)"
    with p have "x \<in> set (butlast path) \<or> x \<in> folder_nodes h ls"
      by (simp add: folder_nodes_Cons)
    then show "source_id h x \<in> dom (folderMappings w')"
    proof
      assume "x \<in> set (butlast path)"
      with res have "source_id h x \<in> dom (folderMappings w1)" by blast
      with mono' show ?thesis by (auto simp: domIff)
    next
      assume "x \<in> folder_nodes h ls"
      with res' show ?thesis by blast
    qed
  qed
  from 1 I' 2 3 show ?case by blast
qed

lemma built_paths_return:
  assumes ac: "acyclic (declared_rel documents)"
    and ix: "indexed (set documents) (nodes h) dm" and ln: "linked (set documents) dm (nodes h)"
    and sh: "sourceHierarchy h = dm"
  shows "\<exists>path. getDocumentPath h documentId = Some path"
proof (cases "sourceHierarchy h documentId")
  case None
  then show ?thesis by (simp add: getDocumentPath_def walk_None)
next
  case (Some a)
  with sh ix have "a < length (nodes h)" by (simp add: indexed_def)
  from chain_exists [OF built_acyclic [OF ac ix ln] built_closed [OF ix ln] this]
  obtain pre where "chain (nodes h) (Some a) pre" by blast
  from chain_walk [OF this, of "[]"] Some show ?thesis by (simp add: getDocumentPath_def)
qed

lemma folder_nodesE:
  assumes "x \<in> folder_nodes h ls"
  obtains l path where "l \<in> set ls" "getDocumentPath h l = Some path" "x \<in> set (butlast path)"
  using assms by (auto simp: folder_nodes_def split: option.splits)

lemma butlast_parent_closed:
  assumes c: "chain hp cur path" and x: "x \<in> set (butlast path)" and p: "parent (hp ! x) = Some q"
  shows "q \<in> set (butlast path)"
proof -
  from x obtain k where k: "k < length (butlast path)" "butlast path ! k = x"
    by (auto simp: in_set_conv_nth)
  then have kp: "k < length path - 1" "path ! k = x" by (simp_all add: nth_butlast)
  then have ne: "path \<noteq> []" by auto
  from chain_props [OF c] ne have root: "parent (hp ! hd path) = None"
    and links: "\<And>j. Suc j < length path \<Longrightarrow> parent (hp ! (path ! Suc j)) = Some (path ! j)"
    by (cases cur; auto)+
  show ?thesis
  proof (cases k)
    case 0
    with kp ne have "x = hd path" by (simp add: hd_conv_nth)
    with root p show ?thesis by simp
  next
    case (Suc j)
    with kp links [of j] p have q: "q = path ! j" by simp
    from Suc kp have "j < length (butlast path)" by simp
    then have "butlast path ! j \<in> set (butlast path)" by (rule nth_mem)
    with q Suc kp show ?thesis by (simp add: nth_butlast)
  qed
qed

text \<open>
  C1 (as amended). Over a hierarchy with acyclic parent links, when no creation,
  ledger write or body translation fails, the mappings start empty, the store
  assigns new identifiers, two unrecorded folders of the same place (the same
  destination parent) never get the same translated title, and no document
  already in the destination collection bears the translated title of an
  unrecorded folder at its place: calling \<open>ensureFolderStructure\<close> for the
  documents in any order (any list with the same documents) returns. Afterwards
  the documents \<open>ds\<close> added to the store, which are those of the
  \<open>createDocument\<close> calls made, correspond one to one to the folders \<open>xs\<close>
  that the ledger did not resolve at the start: each is the folder made for its
  source folder, in the destination collection, under the destination of the
  source parent, and is recorded for it in the mappings and in the ledger. A
  folder that the ledger resolved at the start is mapped to the destination (and
  the name) that the ledger records, and nothing is created for it. Nothing is
  mapped for another identifier, and the ledger is unchanged for every identifier
  but those of the folders made. The description does not depend on the order.
\<close>

theorem folder_resolution_any_order:
  assumes b: "buildHierarchy documents new_DocumentHierarchy = (rootNodes, h)"
    and ac: "acyclic (declared_rel documents)"
    and nf: "no_failures env"
    and fresh: "folderMappings w0 = Map.empty"
    and ids: "identifiers_new env h coll (folder_nodes h ls) w0"
    and titles: "sibling_titles_differ cfg env h force (folder_nodes h ls) w0"
    and vacant: "places_vacant cfg env h coll force (folder_nodes h ls) w0"
    and perm: "set ls' = set ls"
  shows "\<exists>w xs ds. ensure_all cfg env h coll force ls' w0 = Some w \<and>
           distinct xs \<and> set xs = unrecorded h w0 (folder_nodes h ls) \<and>
           server w = server w0 @ ds \<and> distinct (map doc_id ds) \<and>
           filter is_create (calls w) = filter is_create (calls w0) @ map request_of ds \<and>
           list_all2 (made_for cfg env h coll force w) xs ds \<and>
           (\<forall>x\<in>folder_nodes h ls. \<forall>v.
              ledger_entry (tracker w0) (source_id h x) = Some v \<longrightarrow>
                folderMappings w (source_id h x) =
                  Some \<lparr>sourceId = source_id h x, targetId = translatedId_of v,
                        sourceName = source_title h x, targetName = translatedTitle_of v\<rparr>) \<and>
           (\<forall>X. X \<notin> source_id h ` folder_nodes h ls \<longrightarrow> folderMappings w X = None) \<and>
           (\<forall>X. X \<notin> source_id h ` unrecorded h w0 (folder_nodes h ls) \<longrightarrow>
              translations' (tracker w) X = translations' (tracker w0) X)"
proof -
  let ?N = "folder_nodes h ls"
  from b obtain hp1 dm where sh: "sourceHierarchy h = dm"
    and ix: "indexed (set documents) (nodes h) dm"
    and ln: "linked (set documents) dm (nodes h)"
    by (rule buildHierarchy_fresh)
  have paths: "\<And>l. \<exists>path. getDocumentPath h l = Some path"
    by (rule built_paths_return [OF ac ix ln sh])
  have N1: "sourceHierarchy h (source_id h x) = Some x" if "x \<in> ?N" for x
  proof -
    from that obtain l path where p: "getDocumentPath h l = Some path" "x \<in> set (butlast path)"
      by (rule folder_nodesE)
    from p(2) have "x \<in> set path" by (rule in_set_butlastD)
    from built_path_indexed [OF ix ln sh p(1) this] sh show ?thesis by (simp add: source_id_def)
  qed
  have N2: "q \<in> ?N" if "x \<in> ?N" "parent (nodes h ! x) = Some q" for x q
  proof -
    from that(1) obtain l path where p: "l \<in> set ls" "getDocumentPath h l = Some path"
      "x \<in> set (butlast path)"
      by (rule folder_nodesE)
    from butlast_parent_closed [OF getDocumentPath_chain [OF p(2)] p(3) that(2)] p(1,2)
    show ?thesis unfolding folder_nodes_def by (intro UN_I [of l]) simp_all
  qed
  have S: "folder_setting cfg env h coll force ?N w0"
    unfolding folder_setting_def
    using N1 N2 titles vacant ids fresh by blast
  have same: "folder_nodes h ls' = ?N" using perm by (simp add: folder_nodes_def)
  from ensure_all_inv [OF nf S paths folder_inv_initial [OF fresh], of ls'] same
  obtain w xs ds where a: "ensure_all cfg env h coll force ls' w0 = Some w"
    and I: "folder_inv cfg env h coll force ?N w0 w xs ds"
    and res: "\<forall>x\<in>?N. source_id h x \<in> dom (folderMappings w)"
    by auto
  note J = folder_invD [OF I]
  have 1: "set xs = unrecorded h w0 ?N"
    using J(5) res by (auto simp: unrecorded_def)
  have 2: "folderMappings w (source_id h x) =
                  Some \<lparr>sourceId = source_id h x, targetId = translatedId_of v,
                        sourceName = source_title h x, targetName = translatedTitle_of v\<rparr>"
    if "x \<in> ?N" "ledger_entry (tracker w0) (source_id h x) = Some v" for x v
    using J(3) [OF that] res that(1) by blast
  have 3: "folderMappings w X = None" if "X \<notin> source_id h ` ?N" for X
    using J(1) that by (auto simp: domIff)
  have 4: "translations' (tracker w) X = translations' (tracker w0) X"
    if "X \<notin> source_id h ` unrecorded h w0 ?N" for X
    using J(12) [of X] that 1 by simp
  from a J(4) 1 J(6) J(8) J(10) J(7) 2 3 4 show ?thesis by blast
qed

lemma ex_twins_built:
  "snd (buildHierarchy ex_twins new_DocumentHierarchy) =
     \<lparr>nodes = [\<lparr>document = ex_doc ''A'' ''Lore'' None ''u'', children = [1, 2], parent = None\<rparr>,
               \<lparr>document = ex_doc ''B1'' ''Notes'' (Some ''A'') ''u'', children = [3], parent = Some 0\<rparr>,
               \<lparr>document = ex_doc ''B2'' ''Notes'' (Some ''A'') ''u'', children = [4], parent = Some 0\<rparr>,
               \<lparr>document = ex_doc ''L1'' ''Arthur'' (Some ''B1'') ''u'', children = [], parent = Some 1\<rparr>,
               \<lparr>document = ex_doc ''L2'' ''Merlin'' (Some ''B2'') ''u'', children = [], parent = Some 2\<rparr>],
      sourceHierarchy = [''A'' \<mapsto> 0, ''B1'' \<mapsto> 1, ''B2'' \<mapsto> 2, ''L1'' \<mapsto> 3, ''L2'' \<mapsto> 4]\<rparr>"
  by (simp add: buildHierarchy_def new_DocumentHierarchy_def ex_twins_def ex_doc_def
        eval_nat_numeral)

lemma ex_twins_nodes:
  "source_id (snd (buildHierarchy ex_twins new_DocumentHierarchy))
     ` folder_nodes (snd (buildHierarchy ex_twins new_DocumentHierarchy)) [''L1'', ''L2'']
   = {''A'', ''B1'', ''B2''}"
  by (simp add: ex_twins_built folder_nodes_def getDocumentPath_def walk_None walk_Some
        source_id_def ex_doc_def insert_commute)

text \<open>C1 as stated fails: two sibling folders with the same translated title, B1
  and B2 under A. The paths of L1 and L2 have three distinct folders, but only two
  documents are created: the search for B2 finds the folder created for B1 and
  adopts it, and B2 gets no record in the ledger.\<close>

theorem twin_folders_counterexample:
  "source_id (snd (buildHierarchy ex_twins new_DocumentHierarchy))
     ` folder_nodes (snd (buildHierarchy ex_twins new_DocumentHierarchy)) [''L1'', ''L2'']
   = {''A'', ''B1'', ''B2''} \<and>
   (case ensure_all (ex_cfg None) ex_env (snd (buildHierarchy ex_twins new_DocumentHierarchy))
           ''dst'' False [''L1'', ''L2''] (ex_world ex_twins) of
      Some w \<Rightarrow>
        length (filter is_create (calls w)) = 2 \<and>
        length (server w) = length (server (ex_world ex_twins)) + 2 \<and>
        map_option targetId (folderMappings w ''B2'') = map_option targetId (folderMappings w ''B1'') \<and>
        folderMappings w ''B1'' \<noteq> None \<and>
        translations' (tracker w) ''B2'' = None
    | None \<Rightarrow> False)"
proof -
  have "case ensure_all (ex_cfg None) ex_env (snd (buildHierarchy ex_twins new_DocumentHierarchy))
           ''dst'' False [''L1'', ''L2''] (ex_world ex_twins) of
      Some w \<Rightarrow>
        length (filter is_create (calls w)) = 2 \<and>
        length (server w) = length (server (ex_world ex_twins)) + 2 \<and>
        map_option targetId (folderMappings w ''B2'') = map_option targetId (folderMappings w ''B1'') \<and>
        folderMappings w ''B1'' \<noteq> None \<and>
        translations' (tracker w) ''B2'' = None
    | None \<Rightarrow> False"
    unfolding ex_twins_built
    by (simp add: ensureFolderStructure_def getDocumentPath_def walk_None walk_Some
          resolve_folder_def search_or_create_def create_folder_def findFolderByName_def
          set_mapping_def
          getDocumentsByCollection_def interact_def translateTitle_def translateToEnglish_def
          createDocument_def track_def addTranslation_def assign_def getTranslatedDocument_def
          isDocumentTranslated_def inherited_def object_prototype_keys_def
          nonblank_def is_space_def
          ex_cfg_def ex_env_def ex_world_def ex_twins_def ex_doc_def Let_def)
  with ex_twins_nodes show ?thesis by simp
qed

lemma ex_resume_acyclic: "acyclic (declared_rel ex_resume)"
proof -
  have "declared_rel ex_resume \<subseteq> (measure ex_level)\<inverse>"
    by (auto simp: declared_rel_def ex_resume_def ex_doc_def ex_level_def)
  moreover have "acyclic ((measure ex_level)\<inverse>)"
    by (simp add: acyclic_converse wf_acyclic)
  ultimately show ?thesis by (rule acyclic_subset [rotated])
qed

lemma ex_resume_built:
  "snd (buildHierarchy ex_resume new_DocumentHierarchy) =
     \<lparr>nodes = [\<lparr>document = ex_doc ''A'' ''Lore'' None ''u'', children = [1, 2], parent = None\<rparr>,
               \<lparr>document = ex_doc ''B1'' ''Characters'' (Some ''A'') ''u'', children = [3],
                 parent = Some 0\<rparr>,
               \<lparr>document = ex_doc ''B2'' ''Places'' (Some ''A'') ''u'', children = [4],
                 parent = Some 0\<rparr>,
               \<lparr>document = ex_doc ''N1'' ''Notes'' (Some ''B1'') ''u'', children = [5],
                 parent = Some 1\<rparr>,
               \<lparr>document = ex_doc ''N2'' ''Notes'' (Some ''B2'') ''u'', children = [6],
                 parent = Some 2\<rparr>,
               \<lparr>document = ex_doc ''L1'' ''Arthur'' (Some ''N1'') ''u'', children = [],
                 parent = Some 3\<rparr>,
               \<lparr>document = ex_doc ''L2'' ''Camelot'' (Some ''N2'') ''u'', children = [],
                 parent = Some 4\<rparr>],
      sourceHierarchy = [''A'' \<mapsto> 0, ''B1'' \<mapsto> 1, ''B2'' \<mapsto> 2, ''N1'' \<mapsto> 3, ''N2'' \<mapsto> 4,
                         ''L1'' \<mapsto> 5, ''L2'' \<mapsto> 6]\<rparr>"
  by (simp add: buildHierarchy_def new_DocumentHierarchy_def ex_resume_def ex_doc_def
        eval_nat_numeral)

lemma ex_resume_nodes:
  "folder_nodes (snd (buildHierarchy ex_resume new_DocumentHierarchy)) [''L1'', ''L2'']
     = {0, 1, 2, 3, 4}"
proof -
  have "getDocumentPath (snd (buildHierarchy ex_resume new_DocumentHierarchy)) ''L1''
          = Some [0, 1, 3, 5]"
    "getDocumentPath (snd (buildHierarchy ex_resume new_DocumentHierarchy)) ''L2''
          = Some [0, 2, 4, 6]"
    by (simp_all add: ex_resume_built getDocumentPath_def walk_None walk_Some)
  then show ?thesis by (auto simp: folder_nodes_def)
qed

lemma ex_no_failures: "no_failures ex_env_ok"
  by (simp add: no_failures_def ex_env_ok_def ex_env_def)

lemma ex_resume_ids:
  "source_id (snd (buildHierarchy ex_resume new_DocumentHierarchy)) 0 = ''A''"
  "source_id (snd (buildHierarchy ex_resume new_DocumentHierarchy)) (Suc 0) = ''B1''"
  "source_id (snd (buildHierarchy ex_resume new_DocumentHierarchy)) 2 = ''B2''"
  "source_id (snd (buildHierarchy ex_resume new_DocumentHierarchy)) 3 = ''N1''"
  "source_id (snd (buildHierarchy ex_resume new_DocumentHierarchy)) 4 = ''N2''"
  by (simp_all add: ex_resume_built source_id_def ex_doc_def eval_nat_numeral)

lemma ex_resume_titles:
  "source_title (snd (buildHierarchy ex_resume new_DocumentHierarchy)) 0 = ''Lore''"
  "source_title (snd (buildHierarchy ex_resume new_DocumentHierarchy)) (Suc 0) = ''Characters''"
  "source_title (snd (buildHierarchy ex_resume new_DocumentHierarchy)) 2 = ''Places''"
  "source_title (snd (buildHierarchy ex_resume new_DocumentHierarchy)) 3 = ''Notes''"
  "source_title (snd (buildHierarchy ex_resume new_DocumentHierarchy)) 4 = ''Notes''"
  by (simp_all add: ex_resume_built source_title_def ex_doc_def eval_nat_numeral)

lemma ex_resume_parents:
  "parent (nodes (snd (buildHierarchy ex_resume new_DocumentHierarchy)) ! 0) = None"
  "parent (nodes (snd (buildHierarchy ex_resume new_DocumentHierarchy)) ! Suc 0) = Some 0"
  "parent (nodes (snd (buildHierarchy ex_resume new_DocumentHierarchy)) ! 2) = Some 0"
  "parent (nodes (snd (buildHierarchy ex_resume new_DocumentHierarchy)) ! 3) = Some 1"
  "parent (nodes (snd (buildHierarchy ex_resume new_DocumentHierarchy)) ! 4) = Some 2"
  by (simp_all add: ex_resume_built eval_nat_numeral)

lemma ex_resumed_ledger:
  "ledger_entry (tracker ex_resumed) ''A'' = Some (Entry (ex_entry ''2024-01-15T15:45:00.000Z''))"
  "ledger_entry (tracker ex_resumed) ''B1'' = None"
  "ledger_entry (tracker ex_resumed) ''B2'' = None"
  "ledger_entry (tracker ex_resumed) ''N1'' = None"
  "ledger_entry (tracker ex_resumed) ''N2'' = None"
  by (simp_all add: ledger_entry_def isDocumentTranslated_def getTranslatedDocument_def
        inherited_def object_prototype_keys_def ex_resumed_def)

lemma ex_resume_unrecorded:
  "unrecorded (snd (buildHierarchy ex_resume new_DocumentHierarchy)) ex_resumed {0, 1, 2, 3, 4}
     = {1, 2, 3, 4}"
  by (auto simp: unrecorded_def ex_resume_ids ex_resumed_ledger)

lemma ex_resume_places:
  "place_of (snd (buildHierarchy ex_resume new_DocumentHierarchy)) ex_resumed (Suc 0)
     = Under (Some ''A-translated'')"
  "place_of (snd (buildHierarchy ex_resume new_DocumentHierarchy)) ex_resumed 2
     = Under (Some ''A-translated'')"
  "place_of (snd (buildHierarchy ex_resume new_DocumentHierarchy)) ex_resumed 3 = Inside 1"
  "place_of (snd (buildHierarchy ex_resume new_DocumentHierarchy)) ex_resumed 4 = Inside 2"
  by (simp_all add: place_of_def ex_resume_parents ex_resume_ids ex_resumed_ledger ex_entry_def)

lemma ex_title_at: "title_at (ex_cfg None) ex_env_ok False n x = x"
  by (simp add: title_at_def ex_cfg_def ex_env_ok_def ex_env_def)

lemma ex_resume_sibling_titles:
  "sibling_titles_differ (ex_cfg None) ex_env_ok
     (snd (buildHierarchy ex_resume new_DocumentHierarchy)) False {0, 1, 2, 3, 4} ex_resumed"
  unfolding sibling_titles_differ_def ex_resume_unrecorded
  by (simp add: ex_resume_places ex_resume_titles ex_title_at)

lemma ex_resume_vacant:
  "places_vacant (ex_cfg None) ex_env_ok
     (snd (buildHierarchy ex_resume new_DocumentHierarchy)) ''dst'' False {0, 1, 2, 3, 4} ex_resumed"
proof -
  let ?h = "snd (buildHierarchy ex_resume new_DocumentHierarchy)"
  have srv: "\<forall>d\<in>set (server ex_resumed). doc_collectionId d = ''dst'' \<longrightarrow>
      doc_parentDocumentId d = None"
    by (simp add: ex_resumed_def ex_resume_def ex_doc_def ex_target_def)
  show ?thesis
    unfolding places_vacant_def ex_resume_unrecorded
  proof (intro ballI impI allI)
    fix x d n
    assume x: "x \<in> {1, 2, 3, 4::nat}" and d: "d \<in> set (server ex_resumed)"
      "doc_collectionId d = ''dst''"
      and p: "place_of ?h ex_resumed x = Under (doc_parentDocumentId d)"
    from srv d have "doc_parentDocumentId d = None" by blast
    with p x have False by (auto simp: ex_resume_places)
    then show "doc_title d \<noteq> title_at (ex_cfg None) ex_env_ok False n (source_title ?h x)" ..
  qed
qed

lemma ex_resume_identifiers:
  "identifiers_new ex_env_ok (snd (buildHierarchy ex_resume new_DocumentHierarchy)) ''dst''
     {0, 1, 2, 3, 4} ex_resumed"
proof -
  have n: "new_id ex_env_ok n = CHR ''t'' # replicate n CHR ''t''" for n
    by (simp add: ex_env_ok_def ex_env_def)
  have inj: "n = m" if "new_id ex_env_ok n = new_id ex_env_ok m" for n m
  proof -
    from that have "length (new_id ex_env_ok n) = length (new_id ex_env_ok m)" by simp
    then show ?thesis by (simp add: n)
  qed
  have srv: "\<forall>d\<in>set (server ex_resumed). doc_collectionId d = ''dst'' \<longrightarrow>
      doc_parentDocumentId d = None"
    by (simp add: ex_resumed_def ex_resume_def ex_doc_def ex_target_def)
  show ?thesis
    unfolding identifiers_new_def
  proof (intro conjI allI ballI impI)
    fix n show "new_id ex_env_ok n \<noteq> []" by (simp add: n)
  next
    fix n m assume "new_id ex_env_ok n = new_id ex_env_ok m"
    then show "n = m" by (rule inj)
  next
    fix d n assume "d \<in> set (server ex_resumed)" "doc_collectionId d = ''dst''"
    with srv show "doc_parentDocumentId d \<noteq> Some (new_id ex_env_ok n)" by auto
  next
    fix x v
    assume x: "x \<in> {0, 1, 2, 3, 4::nat}"
      and v: "ledger_entry (tracker ex_resumed)
          (source_id (snd (buildHierarchy ex_resume new_DocumentHierarchy)) x) = Some v"
    from x v have "v = Entry (ex_entry ''2024-01-15T15:45:00.000Z'')"
      by (auto simp: ex_resume_ids ex_resumed_ledger)
    then have t: "translatedId_of v = Some ''A-translated''" by (simp add: ex_entry_def)
    from t show "translatedId_of v \<noteq> Some []" by simp
    fix n from t show "translatedId_of v \<noteq> Some (new_id ex_env_ok n)" by (simp add: n)
  qed
qed

theorem folder_resolution_any_order_witness:
  "acyclic (declared_rel ex_resume) \<and> no_failures ex_env_ok \<and>
   identifiers_new ex_env_ok (snd (buildHierarchy ex_resume new_DocumentHierarchy)) ''dst''
     (folder_nodes (snd (buildHierarchy ex_resume new_DocumentHierarchy)) [''L1'', ''L2''])
     ex_resumed \<and>
   sibling_titles_differ (ex_cfg None) ex_env_ok
     (snd (buildHierarchy ex_resume new_DocumentHierarchy)) False
     (folder_nodes (snd (buildHierarchy ex_resume new_DocumentHierarchy)) [''L1'', ''L2''])
     ex_resumed \<and>
   places_vacant (ex_cfg None) ex_env_ok
     (snd (buildHierarchy ex_resume new_DocumentHierarchy)) ''dst'' False
     (folder_nodes (snd (buildHierarchy ex_resume new_DocumentHierarchy)) [''L1'', ''L2''])
     ex_resumed \<and>
   (\<exists>w ds. ensure_all (ex_cfg None) ex_env_ok
             (snd (buildHierarchy ex_resume new_DocumentHierarchy))
             ''dst'' False [''L2'', ''L1''] ex_resumed = Some w \<and>
        server w = server ex_resumed @ ds \<and> length ds = 4 \<and>
        length (filter is_create (calls w)) = 4 \<and>
        folderMappings w ''A'' =
          Some \<lparr>sourceId = ''A'', targetId = Some ''A-translated'', sourceName = ''Lore'',
                targetName = Some ''Lore''\<rparr> \<and>
        translations' (tracker w) ''A'' = Some (ex_entry ''2024-01-15T15:45:00.000Z''))"
proof -
  let ?h = "snd (buildHierarchy ex_resume new_DocumentHierarchy)"
  let ?N = "folder_nodes ?h [''L1'', ''L2'']"
  have b: "buildHierarchy ex_resume new_DocumentHierarchy
      = (fst (buildHierarchy ex_resume new_DocumentHierarchy), ?h)" by simp
  have fresh: "folderMappings ex_resumed = Map.empty" by (simp add: ex_resumed_def)
  have perm: "set [''L2'', ''L1''] = set [''L1'', ''L2'']" by auto
  have ids: "identifiers_new ex_env_ok ?h ''dst'' ?N ex_resumed"
    unfolding ex_resume_nodes by (rule ex_resume_identifiers)
  have titles: "sibling_titles_differ (ex_cfg None) ex_env_ok ?h False ?N ex_resumed"
    unfolding ex_resume_nodes by (rule ex_resume_sibling_titles)
  have vacant: "places_vacant (ex_cfg None) ex_env_ok ?h ''dst'' False ?N ex_resumed"
    unfolding ex_resume_nodes by (rule ex_resume_vacant)
  from folder_resolution_any_order [OF b ex_resume_acyclic ex_no_failures fresh ids titles
      vacant perm]
  obtain w xs ds where a: "ensure_all (ex_cfg None) ex_env_ok ?h ''dst'' False [''L2'', ''L1'']
        ex_resumed = Some w"
    and xs: "distinct xs" "set xs = unrecorded ?h ex_resumed ?N"
    and srv: "server w = server ex_resumed @ ds"
    and cl: "filter is_create (calls w) = filter is_create (calls ex_resumed) @ map request_of ds"
    and made: "list_all2 (made_for (ex_cfg None) ex_env_ok ?h ''dst'' False w) xs ds"
    and led: "\<And>x v. x \<in> ?N \<Longrightarrow> ledger_entry (tracker ex_resumed) (source_id ?h x) = Some v \<Longrightarrow>
        folderMappings w (source_id ?h x) =
          Some \<lparr>sourceId = source_id ?h x, targetId = translatedId_of v,
                sourceName = source_title ?h x, targetName = translatedTitle_of v\<rparr>"
    and keep: "\<And>X. X \<notin> source_id ?h ` unrecorded ?h ex_resumed ?N \<Longrightarrow>
        translations' (tracker w) X = translations' (tracker ex_resumed) X"
    by blast
  from xs have "length xs = card {1, 2, 3, 4::nat}"
    unfolding ex_resume_nodes ex_resume_unrecorded by (metis distinct_card)
  then have lx: "length xs = 4" by simp
  with made have ld: "length ds = 4" by (auto dest: list_all2_lengthD)
  from cl ld have lc: "length (filter is_create (calls w)) = 4"
    by (simp add: ex_resumed_def)
  have "0 \<in> ?N" unfolding ex_resume_nodes by simp
  from led [OF this, of "Entry (ex_entry ''2024-01-15T15:45:00.000Z'')"]
  have mA: "folderMappings w ''A'' =
          Some \<lparr>sourceId = ''A'', targetId = Some ''A-translated'', sourceName = ''Lore'',
                targetName = Some ''Lore''\<rparr>"
    by (simp add: ex_resume_ids ex_resume_titles ex_resumed_ledger ex_entry_def)
  have "''A'' \<notin> source_id ?h ` unrecorded ?h ex_resumed ?N"
    unfolding ex_resume_nodes ex_resume_unrecorded by (simp add: ex_resume_ids)
  from keep [OF this]
  have tA: "translations' (tracker w) ''A'' = Some (ex_entry ''2024-01-15T15:45:00.000Z'')"
    by (simp add: ex_resumed_def)
  from a srv ld lc mA tA ex_resume_acyclic ex_no_failures ids titles vacant
  show ?thesis by blast
qed

end
